theory Spec2Isabelle
  imports Complex_Main "HOL-Library.Sublist" "HOL-Library.Log_Nat"
begin

section \<open>Decoded chain values\<close>

text \<open>
  The chain client hands the script decoded objects whose \<open>value\<close> attribute is a tree of
  Python dictionaries, lists, strings, integers, booleans and \<open>None\<close>. A dictionary is an
  association list with string keys, read by the first entry of a key. Floating-point
  numbers do not occur in the decoded values and are left out; strings are taken as ASCII.
  The library is modelled as CPython 3.11 on Linux with a 64-bit \<open>time_t\<close> behaves.
\<close>

datatype pyval =
    PNone
  | PBool bool
  | PInt int
  | PStr string
  | PList "pyval list"
  | PDict "(string \<times> pyval) list"

datatype py_error =
    KeyError
  | TypeError
  | IndexError
  | AttributeError
  | ValueError
  | OverflowError
  | OSError
  | IntegrityError
  | DoesNotExist
  | MultipleObjectsReturned

type_synonym 'a res = "py_error + 'a"

text \<open>An object of the chain client; its \<open>value\<close> attribute may be missing.\<close>

type_synonym scale_obj = "pyval option"

text \<open>\<open>getattr(obj, 'value', None)\<close>\<close>

definition getattr_value :: "scale_obj \<Rightarrow> pyval" where
  "getattr_value obj = (case obj of None \<Rightarrow> PNone | Some v \<Rightarrow> v)"

text \<open>Python's truth value of an object, as \<open>if x\<close> and \<open>not x\<close> test it.\<close>

fun truthy :: "pyval \<Rightarrow> bool" where
  "truthy PNone = False"
| "truthy (PBool b) = b"
| "truthy (PInt i) = (i \<noteq> 0)"
| "truthy (PStr s) = (s \<noteq> [])"
| "truthy (PList xs) = (xs \<noteq> [])"
| "truthy (PDict kvs) = (kvs \<noteq> [])"

text \<open>\<open>k in x\<close> for a string \<open>k\<close>: key membership in a dictionary, element membership in a
  list, substring test in a string, and a TypeError on anything that is not a container.\<close>

fun str_in :: "string \<Rightarrow> pyval \<Rightarrow> bool res" where
  "str_in k (PDict kvs) = Inr (map_of kvs k \<noteq> None)"
| "str_in k (PList xs) = Inr (PStr k \<in> set xs)"
| "str_in k (PStr s) = Inr (sublist k s)"
| "str_in k PNone = Inl TypeError"
| "str_in k (PBool b) = Inl TypeError"
| "str_in k (PInt i) = Inl TypeError"

text \<open>\<open>x[k]\<close> for a string \<open>k\<close>: only a dictionary can be subscripted by a string.\<close>

fun getitem :: "pyval \<Rightarrow> string \<Rightarrow> pyval res" where
  "getitem (PDict kvs) k = (case map_of kvs k of None \<Rightarrow> Inl KeyError | Some v \<Rightarrow> Inr v)"
| "getitem PNone k = Inl TypeError"
| "getitem (PBool b) k = Inl TypeError"
| "getitem (PInt i) k = Inl TypeError"
| "getitem (PStr s) k = Inl TypeError"
| "getitem (PList xs) k = Inl TypeError"

text \<open>\<open>x[0]\<close>: the first element of a list, the first character of a string; the keys of
  a decoded dictionary are strings, so \<open>0\<close> is never one of them.\<close>

fun getitem0 :: "pyval \<Rightarrow> pyval res" where
  "getitem0 (PList []) = Inl IndexError"
| "getitem0 (PList (x # xs)) = Inr x"
| "getitem0 (PStr []) = Inl IndexError"
| "getitem0 (PStr (c # cs)) = Inr (PStr [c])"
| "getitem0 (PDict kvs) = Inl KeyError"
| "getitem0 PNone = Inl TypeError"
| "getitem0 (PBool b) = Inl TypeError"
| "getitem0 (PInt i) = Inl TypeError"

text \<open>\<open>x.get(k, default)\<close>: a method of dictionaries only.\<close>

fun get_default :: "pyval \<Rightarrow> string \<Rightarrow> pyval \<Rightarrow> pyval res" where
  "get_default (PDict kvs) k d = Inr (case map_of kvs k of None \<Rightarrow> d | Some v \<Rightarrow> v)"
| "get_default PNone k d = Inl AttributeError"
| "get_default (PBool b) k d = Inl AttributeError"
| "get_default (PInt i) k d = Inl AttributeError"
| "get_default (PStr s) k d = Inl AttributeError"
| "get_default (PList xs) k d = Inl AttributeError"

text \<open>\<open>x.get(k)\<close>, whose default is \<open>None\<close>.\<close>

definition get :: "pyval \<Rightarrow> string \<Rightarrow> pyval res" where
  "get x k = get_default x k PNone"

text \<open>The elements a \<open>for\<close> loop or a generator draws from \<open>x\<close>: those of a list, the keys
  of a dictionary, the characters of a string.\<close>

fun iterate :: "pyval \<Rightarrow> pyval list res" where
  "iterate (PList xs) = Inr xs"
| "iterate (PDict kvs) = Inr (map (\<lambda>kv. PStr (fst kv)) kvs)"
| "iterate (PStr s) = Inr (map (\<lambda>c. PStr [c]) s)"
| "iterate PNone = Inl TypeError"
| "iterate (PBool b) = Inl TypeError"
| "iterate (PInt i) = Inl TypeError"

text \<open>\<open>x == n\<close> for an integer \<open>n\<close>: an integer equals it by value, and so does a boolean
  (\<open>True == 1\<close>, \<open>False == 0\<close>); nothing else does.\<close>

fun eq_int :: "pyval \<Rightarrow> int \<Rightarrow> bool" where
  "eq_int (PInt i) n = (i = n)"
| "eq_int (PBool b) n = ((if b then 1 else 0) = n)"
| "eq_int PNone n = False"
| "eq_int (PStr s) n = False"
| "eq_int (PList xs) n = False"
| "eq_int (PDict kvs) n = False"

text \<open>Sequencing of fallible steps: the first exception ends the computation.\<close>

definition and_then :: "'a res \<Rightarrow> ('a \<Rightarrow> 'b res) \<Rightarrow> 'b res" where
  "and_then m f = (case m of Inl e \<Rightarrow> Inl e | Inr x \<Rightarrow> f x)"

section \<open>Conversions of the Python library\<close>

subsection \<open>Integers and strings\<close>


text \<open>The decimal numeral of a number, as \<open>str\<close> and the f-string print it.\<close>

definition digit_char :: "nat \<Rightarrow> char" where
  "digit_char d = ''0123456789'' ! (d mod 10)"

function str_of_nat :: "nat \<Rightarrow> string" where
  "str_of_nat n = (if n < 10 then [digit_char n] else str_of_nat (n div 10) @ [digit_char (n mod 10)])"
  by pat_completeness auto
termination
  by (relation "measure (\<lambda>n. n)") auto

definition str_of_int :: "int \<Rightarrow> string" where
  "str_of_int i = (if i < 0 then CHR ''-'' # str_of_nat (nat (- i)) else str_of_nat (nat i))"

declare str_of_nat.simps [simp del]

text \<open>The number a decimal numeral denotes; leading zeros do not change it.\<close>

definition digit_val :: "char \<Rightarrow> nat" where
  "digit_val c = of_char c - 48"

definition val_of :: "string \<Rightarrow> nat" where
  "val_of s = foldl (\<lambda>a c. 10 * a + digit_val c) 0 s"

text \<open>\<open>repr\<close> of a string: single quotes, unless the string holds a single quote and no
  double quote; the quote, the backslash and the control characters are escaped.\<close>

definition hex_digit :: "nat \<Rightarrow> char" where
  "hex_digit d = ''0123456789abcdef'' ! (d mod 16)"

definition escape_char :: "char \<Rightarrow> char \<Rightarrow> string" where
  "escape_char quote c =
     (if c = quote \<or> c = CHR 0x5C then [CHR 0x5C, c]
      else if c = CHR 0x09 then [CHR 0x5C, CHR ''t'']
      else if c = CHR 0x0A then [CHR 0x5C, CHR ''n'']
      else if c = CHR 0x0D then [CHR 0x5C, CHR ''r'']
      else if (of_char c :: nat) < 32 \<or> (of_char c :: nat) = 127
      then [CHR 0x5C, CHR ''x'', hex_digit (of_char c div 16), hex_digit (of_char c)]
      else [c])"

definition repr_str :: "string \<Rightarrow> string" where
  "repr_str s =
     (let quote = (if CHR 0x27 \<in> set s \<and> CHR 0x22 \<notin> set s then CHR 0x22 else CHR 0x27)
      in quote # concat (map (escape_char quote) s) @ [quote])"

text \<open>\<open>', '.join(xs)\<close>\<close>

fun join_comma :: "string list \<Rightarrow> string" where
  "join_comma [] = []"
| "join_comma [x] = x"
| "join_comma (x # y # ys) = x @ '', '' @ join_comma (y # ys)"

primrec py_repr :: "pyval \<Rightarrow> string" where
  "py_repr PNone = ''None''"
| "py_repr (PBool b) = (if b then ''True'' else ''False'')"
| "py_repr (PInt i) = str_of_int i"
| "py_repr (PStr s) = repr_str s"
| "py_repr (PList xs) = ''['' @ join_comma (map py_repr xs) @ '']''"
| "py_repr (PDict kvs) =
     ''{'' @ join_comma (map (\<lambda>kv. repr_str (fst kv) @ '': '' @ snd kv)
                             (map (map_prod id py_repr) kvs)) @ ''}''"

text \<open>\<open>str(x)\<close>\<close>

definition py_str :: "pyval \<Rightarrow> string" where
  "py_str v = (case v of PStr s \<Rightarrow> s | _ \<Rightarrow> py_repr v)"

text \<open>\<open>int(s)\<close> for a string: white space around, an optional sign, decimal digits with
  single underscores between them, and at most 4300 digits. \<open>None\<close> is the ValueError.\<close>

definition is_space :: "char \<Rightarrow> bool" where
  "is_space c = ((of_char c :: nat) \<in> {9, 10, 11, 12, 13, 32})"

definition is_digit :: "char \<Rightarrow> bool" where
  "is_digit c = (48 \<le> (of_char c :: nat) \<and> (of_char c :: nat) \<le> 57)"

definition strip :: "string \<Rightarrow> string" where
  "strip s = rev (dropWhile is_space (rev (dropWhile is_space s)))"

fun digits_ok :: "string \<Rightarrow> bool" where
  "digits_ok [] = False"
| "digits_ok [c] = is_digit c"
| "digits_ok (c # c' # cs) =
     (is_digit c \<and> (if c' = CHR ''_'' then digits_ok cs else digits_ok (c' # cs)))"

definition int_of_str :: "string \<Rightarrow> int option" where
  "int_of_str s =
     (let t = strip s;
          negative = (case t of c # cs \<Rightarrow> c = CHR ''-'' | [] \<Rightarrow> False);
          body = (case t of c # cs \<Rightarrow> if c = CHR ''-'' \<or> c = CHR ''+'' then cs else t | [] \<Rightarrow> t);
          digits = filter is_digit body
      in if digits_ok body \<and> length digits \<le> 4300
         then Some (if negative then - int (val_of digits) else int (val_of digits))
         else None)"

subsection \<open>Doubles\<close>

text \<open>
  A double is the rational it denotes. \<open>double_of x\<close> is the double nearest to \<open>x\<close>, ties
  to the even significand: the result of a correctly rounded operation whose exact value
  is \<open>x\<close>. The significand has 53 bits; below \<open>2 powi (- 1022)\<close> the spacing stays
  \<open>2 powi (- 1074)\<close>. The test for a result beyond the largest double is left to the
  operation.
\<close>

definition round_half_even :: "rat \<Rightarrow> int" where
  "round_half_even x =
     (let n = \<lfloor>x\<rfloor>; r = x - of_int n
      in if r < 1 / 2 then n else if 1 / 2 < r then n + 1 else if even n then n else n + 1)"

text \<open>For \<open>0 < x\<close>, the exponent \<open>e\<close> with \<open>2 powi e \<le> x < 2 powi (e + 1)\<close>.\<close>

definition ilog2 :: "rat \<Rightarrow> int" where
  "ilog2 x =
     (let e = bitlen (fst (quotient_of x)) - bitlen (snd (quotient_of x))
      in if 2 powi e \<le> x then e else e - 1)"

definition double_of :: "rat \<Rightarrow> rat" where
  "double_of x =
     (if x = 0 then 0
      else let k = max (ilog2 \<bar>x\<bar> - 52) (- 1074)
           in sgn x * of_int (round_half_even (\<bar>x\<bar> / 2 powi k)) * 2 powi k)"

section \<open>Timestamp extraction\<close>

text \<open>
  A timezone-aware \<open>datetime\<close> in UTC, given by its distance from the Unix epoch in seconds,
  a multiple of a microsecond.
\<close>

datatype datetime = UTC_instant rat

text \<open>\<open>x / 1000\<close>: the true division of integers gives the double nearest to the quotient,
  and an OverflowError when that is beyond the largest double. A boolean is an integer.\<close>

definition int_truediv_1000 :: "int \<Rightarrow> rat res" where
  "int_truediv_1000 i =
     (let q = double_of (of_int i / 1000)
      in if 2 ^ 1024 \<le> \<bar>q\<bar> then Inl OverflowError else Inr q)"

fun truediv_1000 :: "pyval \<Rightarrow> rat res" where
  "truediv_1000 (PInt i) = int_truediv_1000 i"
| "truediv_1000 (PBool b) = int_truediv_1000 (if b then 1 else 0)"
| "truediv_1000 PNone = Inl TypeError"
| "truediv_1000 (PStr s) = Inl TypeError"
| "truediv_1000 (PList xs) = Inl TypeError"
| "truediv_1000 (PDict kvs) = Inl TypeError"

text \<open>
  The seconds and microseconds that \<open>datetime.fromtimestamp\<close> reads from a double: the
  integral part towards zero, the fraction times \<open>1e6\<close> as a double, rounded to the nearest
  integer with ties to even, and a carry into the seconds.
\<close>

definition timeval_of :: "rat \<Rightarrow> int \<times> int" where
  "timeval_of d =
     (let intpart = (if 0 \<le> d then \<lfloor>d\<rfloor> else \<lceil>d\<rceil>);
          floatpart = d - of_int intpart;
          r = round_half_even (double_of (floatpart * 1000000))
      in if 1000000 \<le> r then (intpart + 1, r - 1000000)
         else if r < 0 then (intpart - 1, r + 1000000)
         else (intpart, r))"

text \<open>
  \<open>datetime.fromtimestamp(d, tz=pytz.UTC)\<close>: an OverflowError when the seconds do not fit
  \<open>time_t\<close>, an OSError when \<open>gmtime\<close> cannot hold the year, a ValueError when the year is
  not one of 1 to 9999 (the first second of year 1 is -62135596800, the last of year 9999
  is 253402300799).
\<close>

definition fromtimestamp_utc :: "rat \<Rightarrow> datetime res" where
  "fromtimestamp_utc d =
     (let sec = fst (timeval_of d); us = snd (timeval_of d)
      in if sec < - (2 ^ 63) \<or> 2 ^ 63 \<le> sec then Inl OverflowError
         else if sec < - 67768040609740800 \<or> 67768036191676799 < sec then Inl OSError
         else if sec < - 62135596800 \<or> 253402300799 < sec then Inl ValueError
         else Inr (UTC_instant (of_int sec + of_int us / 1000000)))"

text \<open>\<open>call['call_function'] == 'set' and call['call_module'] == 'Timestamp'\<close>: the module
  is read only when the function is \<open>'set'\<close>.\<close>

definition is_timestamp_set :: "pyval \<Rightarrow> bool res" where
  "is_timestamp_set call =
     and_then (getitem call ''call_function'') (\<lambda>f.
       if f = PStr ''set''
       then and_then (getitem call ''call_module'') (\<lambda>m. Inr (m = PStr ''Timestamp''))
       else Inr False)"

text \<open>\<open>datetime.fromtimestamp(call['call_args'][0]['value'] / 1000, tz=pytz.UTC)\<close>\<close>

definition timestamp_of_call :: "pyval \<Rightarrow> datetime res" where
  "timestamp_of_call call =
     and_then (getitem call ''call_args'') (\<lambda>args.
     and_then (getitem0 args) (\<lambda>arg0.
     and_then (getitem arg0 ''value'') (\<lambda>v.
     and_then (truediv_1000 v) fromtimestamp_utc)))"

fun extract_block_timestamp :: "scale_obj list \<Rightarrow> datetime option res" where
  "extract_block_timestamp [] = Inr None"
| "extract_block_timestamp (extrinsic # extrinsics) =
     (let extrinsic_value = getattr_value extrinsic in
      if \<not> truthy extrinsic_value then extract_block_timestamp extrinsics
      else
        and_then (str_in ''call'' extrinsic_value) (\<lambda>has_call.
          if \<not> has_call then extract_block_timestamp extrinsics
          else
            and_then (getitem extrinsic_value ''call'') (\<lambda>call.
            and_then (is_timestamp_set call) (\<lambda>hit.
              if hit then and_then (timestamp_of_call call) (\<lambda>t. Inr (Some t))
              else extract_block_timestamp extrinsics))))"

section \<open>Event correlation and call details\<close>

text \<open>The loop of \<open>extract_extrinsic_events\<close>, with its two accumulators.\<close>

fun extract_events_loop ::
  "scale_obj list \<Rightarrow> nat \<Rightarrow> pyval list \<Rightarrow> bool \<Rightarrow> (pyval list \<times> bool) res" where
  "extract_events_loop [] idx extrinsic_events extrinsic_success =
     Inr (extrinsic_events, extrinsic_success)"
| "extract_events_loop (event # events) idx extrinsic_events extrinsic_success =
     (let event_value = getattr_value event in
      if \<not> truthy event_value
      then extract_events_loop events idx extrinsic_events extrinsic_success
      else
        and_then (get event_value ''extrinsic_idx'') (\<lambda>pos.
          if eq_int pos (int idx)
          then
            and_then (getitem event_value ''event_id'') (\<lambda>event_id.
              extract_events_loop events idx (extrinsic_events @ [event_value])
                (if event_id = PStr ''ExtrinsicSuccess'' then True else extrinsic_success))
          else extract_events_loop events idx extrinsic_events extrinsic_success))"

definition extract_extrinsic_events :: "scale_obj list \<Rightarrow> nat \<Rightarrow> (pyval list \<times> bool) res" where
  "extract_extrinsic_events events idx = extract_events_loop events idx [] False"

text \<open>\<open>next((arg['value'] for arg in call_args if arg['name'] == 'netuid'), None)\<close>: the
  generator is lazy, so the arguments after the first one named \<open>netuid\<close> are never read.\<close>

fun first_netuid :: "pyval list \<Rightarrow> pyval res" where
  "first_netuid [] = Inr PNone"
| "first_netuid (arg # args) =
     and_then (getitem arg ''name'') (\<lambda>name.
       if name = PStr ''netuid'' then getitem arg ''value'' else first_netuid args)"

definition extract_extrinsic_details :: "pyval \<Rightarrow> ((pyval \<times> pyval \<times> pyval) \<times> pyval) res" where
  "extract_extrinsic_details extrinsic_value =
     and_then (get_default extrinsic_value ''call'' (PDict [])) (\<lambda>call.
     and_then (get_default call ''call_args'' (PList [])) (\<lambda>call_args.
     and_then (iterate call_args) (\<lambda>args.
     and_then (first_netuid args) (\<lambda>extrinsic_netuid.
     and_then (get call ''call_index'') (\<lambda>ci.
     and_then (get call ''call_function'') (\<lambda>cf.
     and_then (get call ''call_module'') (\<lambda>cm.
       Inr ((ci, cf, cm), extrinsic_netuid))))))))"

section \<open>Position identifiers\<close>

text \<open>The format \<open>{idx:04}\<close> of a position: zeros on the left up to four characters.\<close>

definition format_04 :: "nat \<Rightarrow> string" where
  "format_04 idx = (let s = str_of_nat idx in replicate (4 - length s) CHR ''0'' @ s)"

text \<open>\<open>f"{block_number}-{idx:04}"\<close>\<close>

definition format_idx :: "int \<Rightarrow> nat \<Rightarrow> string" where
  "format_idx block_number idx = str_of_int block_number @ ''-'' @ format_04 idx"

section \<open>The tables of \<open>myapp/models.py\<close>\<close>

text \<open>
  One record per model class, one list of rows per table, in the order of insertion
  (the automatic primary key is the position). \<open>PNone\<close> is SQL NULL. A row is stored as
  the fields prepare it: a CharField stores \<open>str(value)\<close>, an IntegerField stores
  \<open>int(value)\<close>, a JSONField stores the value as it is. The constraints are those the
  model classes declare: a field without \<open>null=True\<close> is NOT NULL, a field with
  \<open>unique=True\<close> is unique, a foreign key holds the \<open>to_field\<close> of a row that exists. The
  database is SQLite, the backend of a project whose settings name no other: an integer
  column holds 64 bits and the length limits of the character fields are not enforced.
\<close>

text \<open>\<open>CharField.get_prep_value\<close>\<close>

definition char_field :: "pyval \<Rightarrow> pyval" where
  "char_field v = (case v of PNone \<Rightarrow> PNone | PStr s \<Rightarrow> PStr s | _ \<Rightarrow> PStr (py_str v))"

text \<open>\<open>IntegerField.get_prep_value\<close>: the exception of \<open>int(value)\<close> is raised again.\<close>

fun int_field :: "pyval \<Rightarrow> pyval res" where
  "int_field PNone = Inr PNone"
| "int_field (PInt i) = Inr (PInt i)"
| "int_field (PBool b) = Inr (PInt (if b then 1 else 0))"
| "int_field (PStr s) = (case int_of_str s of None \<Rightarrow> Inl ValueError | Some i \<Rightarrow> Inr (PInt i))"
| "int_field (PList xs) = Inl TypeError"
| "int_field (PDict kvs) = Inl TypeError"

text \<open>The integers SQLite binds to a statement; a larger one is an OverflowError.\<close>

definition int64 :: "int \<Rightarrow> bool" where
  "int64 i = (- (2 ^ 63) \<le> i \<and> i < 2 ^ 63)"

definition sqlite_int :: "pyval \<Rightarrow> bool" where
  "sqlite_int v = (case v of PInt i \<Rightarrow> int64 i | _ \<Rightarrow> True)"

record block_row =
  b_block_id :: int
  b_block_hash :: pyval
  b_parentHash :: pyval
  b_stateRoot :: pyval
  b_extrinsicsRoot :: pyval
  b_timestamp :: "datetime option"

record call_row =
  c_call_index :: pyval
  c_call_function :: pyval
  c_call_module :: pyval

text \<open>\<open>e_block\<close> is the \<open>block_id\<close> of the referenced Block, \<open>e_call_index\<close> the \<open>call_index\<close>
  of the referenced Call, \<open>None\<close> when the script passes no Call.\<close>

record extrinsic_row =
  e_netuid :: pyval
  e_hash :: pyval
  e_address :: pyval
  e_block :: int
  e_idx :: string
  e_signature :: pyval
  e_tip :: pyval
  e_nonce :: pyval
  e_era :: pyval
  e_call_index :: "pyval option"
  e_call_args :: pyval
  e_result :: string
  e_events :: "pyval list"

record db =
  Block_objects :: "block_row list"
  Call_objects :: "call_row list"
  Extrinsic_objects :: "extrinsic_row list"

text \<open>\<open>Block.objects.create(...)\<close>: \<open>block_id\<close> and \<open>block_hash\<close> are unique, and only
  \<open>timestamp\<close> may be NULL. The instance returned holds the values as they were passed.\<close>

definition Block_objects_create :: "block_row \<Rightarrow> db \<Rightarrow> (block_row \<times> db) res" where
  "Block_objects_create row d =
     (let stored = row\<lparr>b_block_hash := char_field (b_block_hash row),
                        b_parentHash := char_field (b_parentHash row),
                        b_stateRoot := char_field (b_stateRoot row),
                        b_extrinsicsRoot := char_field (b_extrinsicsRoot row)\<rparr>
      in if \<not> int64 (b_block_id row) then Inl OverflowError
         else if b_block_hash stored = PNone \<or> b_parentHash stored = PNone
            \<or> b_stateRoot stored = PNone \<or> b_extrinsicsRoot stored = PNone
         then Inl IntegrityError
         else if b_block_id stored \<in> set (map b_block_id (Block_objects d))
            \<or> b_block_hash stored \<in> set (map b_block_hash (Block_objects d))
         then Inl IntegrityError
         else Inr (row, d\<lparr>Block_objects := Block_objects d @ [stored]\<rparr>))"

text \<open>\<open>Call.objects.create(...)\<close>: \<open>call_index\<close> is unique and not NULL.\<close>

definition Call_objects_create :: "call_row \<Rightarrow> db \<Rightarrow> db res" where
  "Call_objects_create row d =
     (let stored = \<lparr>c_call_index = char_field (c_call_index row),
                     c_call_function = char_field (c_call_function row),
                     c_call_module = char_field (c_call_module row)\<rparr>
      in if c_call_index stored = PNone then Inl IntegrityError
         else if c_call_index stored \<in> set (map c_call_index (Call_objects d))
         then Inl IntegrityError
         else Inr (d\<lparr>Call_objects := Call_objects d @ [stored]\<rparr>))"

text \<open>\<open>list(Call.objects.values_list('call_index', flat=True))\<close>\<close>

definition Call_objects_values_list :: "db \<Rightarrow> pyval list" where
  "Call_objects_values_list d = map c_call_index (Call_objects d)"

text \<open>\<open>Call.objects.get(call_index=...)\<close>: the value is prepared as the field prepares it,
  and exactly one row must match.\<close>

definition Call_objects_get :: "pyval \<Rightarrow> db \<Rightarrow> call_row res" where
  "Call_objects_get ci d =
     (case filter (\<lambda>r. c_call_index r = char_field ci) (Call_objects d) of
        [] \<Rightarrow> Inl DoesNotExist
      | [r] \<Rightarrow> Inr r
      | r # r' # rs \<Rightarrow> Inl MultipleObjectsReturned)"

text \<open>
  \<open>Extrinsic.objects.create(...)\<close>. The values are prepared field by field, in the order
  of the class, so the first of \<open>netuid\<close>, \<open>tip\<close> and \<open>nonce\<close> that is no number raises;
  then the integers are bound to the statement; then the constraints are checked: \<open>hash\<close>
  is unique and not NULL, and the foreign keys \<open>block\<close> and \<open>call_index\<close> are declared
  without \<open>null=True\<close>, so neither may be NULL, and each must name a row of its table.
\<close>

definition Extrinsic_objects_create :: "extrinsic_row \<Rightarrow> db \<Rightarrow> db res" where
  "Extrinsic_objects_create row d =
     and_then (int_field (e_netuid row)) (\<lambda>netuid.
     and_then (int_field (e_tip row)) (\<lambda>tip.
     and_then (int_field (e_nonce row)) (\<lambda>nonce.
       let stored = row\<lparr>e_netuid := netuid, e_hash := char_field (e_hash row),
                         e_address := char_field (e_address row), e_tip := tip,
                         e_nonce := nonce, e_era := char_field (e_era row),
                         e_call_index := map_option char_field (e_call_index row)\<rparr>
       in if \<not> (sqlite_int netuid \<and> int64 (e_block row) \<and> sqlite_int tip \<and> sqlite_int nonce)
          then Inl OverflowError
          else
            case e_call_index stored of
              None \<Rightarrow> Inl IntegrityError
            | Some ci \<Rightarrow>
                if e_hash stored = PNone then Inl IntegrityError
                else if e_hash stored \<in> set (map e_hash (Extrinsic_objects d))
                then Inl IntegrityError
                else if e_block stored \<notin> set (map b_block_id (Block_objects d))
                   \<or> ci \<notin> set (map c_call_index (Call_objects d))
                then Inl IntegrityError
                else Inr (d\<lparr>Extrinsic_objects := Extrinsic_objects d @ [stored]\<rparr>))))"

section \<open>The pipeline\<close>

text \<open>What \<open>get_block_data\<close> returns: the block dictionary with its keys \<open>header\<close> and
  \<open>extrinsics\<close>, the events and the block hash. The chain client itself is not modelled.\<close>

record block_data =
  header :: pyval
  extrinsics :: "scale_obj list"

definition create_block_record ::
  "int \<Rightarrow> block_data \<Rightarrow> pyval \<Rightarrow> datetime option \<Rightarrow> db \<Rightarrow> (block_row \<times> db) res" where
  "create_block_record block_number block block_hash block_timestamp d =
     and_then (getitem (header block) ''parentHash'') (\<lambda>ph.
     and_then (getitem (header block) ''stateRoot'') (\<lambda>sr.
     and_then (getitem (header block) ''extrinsicsRoot'') (\<lambda>er.
       Block_objects_create
         \<lparr>b_block_id = block_number, b_block_hash = block_hash, b_parentHash = ph,
          b_stateRoot = sr, b_extrinsicsRoot = er, b_timestamp = block_timestamp\<rparr> d)))"

text \<open>
  Lines 102 to 112 of \<open>process_extrinsics\<close>: the Call row of a call descriptor. The
  descriptor is the list \<open>[call_index, call_function, call_module]\<close>. A statement that
  raises leaves the tables as the statements before it left them. The test
  \<open>call_index not in call_type\<close> compares values; for the strings that identifiers are,
  Python's \<open>==\<close> is the equality of the model, and a value that is no string equals
  none of the strings the table holds.
\<close>

definition call_index_instance_of ::
  "pyval \<times> pyval \<times> pyval \<Rightarrow> db \<Rightarrow> call_row option res \<times> db" where
  "call_index_instance_of extrinsic_type d =
     (let call_index = fst extrinsic_type in
      if truthy call_index then
        (let call_type = Call_objects_values_list d in
         case (if call_index \<notin> set call_type
               then Call_objects_create
                      \<lparr>c_call_index = call_index,
                       c_call_function = fst (snd extrinsic_type),
                       c_call_module = snd (snd extrinsic_type)\<rparr> d
               else Inr d) of
           Inl e \<Rightarrow> (Inl e, d)
         | Inr d1 \<Rightarrow>
             (case Call_objects_get call_index d1 of
                Inl e \<Rightarrow> (Inl e, d1)
              | Inr inst \<Rightarrow> (Inr (Some inst), d1)))
      else (Inr None, d))"

text \<open>Lines 114 to 128: the keyword arguments of \<open>Extrinsic.objects.create\<close>, evaluated in
  the order they are written.\<close>

definition extrinsic_kwargs ::
  "pyval \<Rightarrow> pyval \<Rightarrow> block_row \<Rightarrow> int \<Rightarrow> nat \<Rightarrow> call_row option \<Rightarrow> string \<Rightarrow> pyval list
     \<Rightarrow> extrinsic_row res" where
  "extrinsic_kwargs extrinsic_value extrinsic_netuid block_instance block_number idx
       call_index_instance extrinsic_result extrinsic_events =
     and_then (get extrinsic_value ''extrinsic_hash'') (\<lambda>h.
     and_then (get extrinsic_value ''address'') (\<lambda>a.
     and_then (get extrinsic_value ''signature'') (\<lambda>sg.
     and_then (get extrinsic_value ''tip'') (\<lambda>tp.
     and_then (get extrinsic_value ''nonce'') (\<lambda>nc.
     and_then (get extrinsic_value ''era'') (\<lambda>er.
     and_then (get_default extrinsic_value ''call'' (PDict [])) (\<lambda>call.
     and_then (get call ''call_args'') (\<lambda>ca.
       Inr \<lparr>e_netuid = extrinsic_netuid, e_hash = h, e_address = a,
            e_block = b_block_id block_instance, e_idx = format_idx block_number idx,
            e_signature = sg, e_tip = tp, e_nonce = nc, e_era = er,
            e_call_index = map_option c_call_index call_index_instance,
            e_call_args = ca, e_result = extrinsic_result,
            e_events = extrinsic_events\<rparr>))))))))"

text \<open>The body of the loop of \<open>process_extrinsics\<close> for the extrinsic at position \<open>idx\<close>.
  The result is the exception raised, if any, and the tables as they then are.\<close>

definition process_extrinsic ::
  "scale_obj list \<Rightarrow> block_row \<Rightarrow> int \<Rightarrow> nat \<Rightarrow> scale_obj \<Rightarrow> db \<Rightarrow> py_error option \<times> db" where
  "process_extrinsic events block_instance block_number idx extrinsic d =
     (let extrinsic_value = getattr_value extrinsic in
      if \<not> truthy extrinsic_value then (None, d)
      else
        case extract_extrinsic_events events idx of
          Inl e \<Rightarrow> (Some e, d)
        | Inr (extrinsic_events, extrinsic_success) \<Rightarrow>
            (let extrinsic_result = (if extrinsic_success then ''success'' else ''failed'') in
             case extract_extrinsic_details extrinsic_value of
               Inl e \<Rightarrow> (Some e, d)
             | Inr (extrinsic_type, extrinsic_netuid) \<Rightarrow>
                 (case call_index_instance_of extrinsic_type d of
                    (Inl e, d1) \<Rightarrow> (Some e, d1)
                  | (Inr call_index_instance, d1) \<Rightarrow>
                      (case extrinsic_kwargs extrinsic_value extrinsic_netuid block_instance
                              block_number idx call_index_instance extrinsic_result
                              extrinsic_events of
                         Inl e \<Rightarrow> (Some e, d1)
                       | Inr row \<Rightarrow>
                           (case Extrinsic_objects_create row d1 of
                              Inl e \<Rightarrow> (Some e, d1)
                            | Inr d2 \<Rightarrow> (None, d2))))))"

text \<open>\<open>for idx, extrinsic in enumerate(extrinsics)\<close>, from position \<open>idx\<close> on.\<close>

fun process_extrinsics_from ::
  "nat \<Rightarrow> scale_obj list \<Rightarrow> scale_obj list \<Rightarrow> block_row \<Rightarrow> int \<Rightarrow> db \<Rightarrow> py_error option \<times> db" where
  "process_extrinsics_from idx [] events block_instance block_number d = (None, d)"
| "process_extrinsics_from idx (extrinsic # rest) events block_instance block_number d =
     (case process_extrinsic events block_instance block_number idx extrinsic d of
        (Some e, d1) \<Rightarrow> (Some e, d1)
      | (None, d1) \<Rightarrow> process_extrinsics_from (Suc idx) rest events block_instance block_number d1)"

definition process_extrinsics ::
  "scale_obj list \<Rightarrow> scale_obj list \<Rightarrow> block_row \<Rightarrow> int \<Rightarrow> db \<Rightarrow> py_error option \<times> db" where
  "process_extrinsics extrinsics_list events block_instance block_number d =
     process_extrinsics_from 0 extrinsics_list events block_instance block_number d"

text \<open>The body of \<open>main\<close> after \<open>get_block_data\<close> has returned, for any block number.\<close>

definition main_from ::
  "int \<Rightarrow> block_data \<Rightarrow> scale_obj list \<Rightarrow> pyval \<Rightarrow> db \<Rightarrow> py_error option \<times> db" where
  "main_from block_number block events block_hash d =
     (case extract_block_timestamp (extrinsics block) of
        Inl e \<Rightarrow> (Some e, d)
      | Inr block_timestamp \<Rightarrow>
          (case create_block_record block_number block block_hash block_timestamp d of
             Inl e \<Rightarrow> (Some e, d)
           | Inr (block_instance, d1) \<Rightarrow>
               process_extrinsics (extrinsics block) events block_instance block_number d1))"

definition main :: "block_data \<Rightarrow> scale_obj list \<Rightarrow> pyval \<Rightarrow> db \<Rightarrow> py_error option \<times> db" where
  "main block events block_hash d = main_from 3593992 block events block_hash d"

section \<open>Notions used in the statements\<close>

definition is_dict :: "pyval \<Rightarrow> bool" where
  "is_dict v = (case v of PDict kvs \<Rightarrow> True | _ \<Rightarrow> False)"

text \<open>The event value carries an extrinsic-position field equal to \<open>idx\<close>.\<close>

definition position_is :: "nat \<Rightarrow> pyval \<Rightarrow> bool" where
  "position_is idx v =
     (case v of
        PDict kvs \<Rightarrow>
          (case map_of kvs ''extrinsic_idx'' of None \<Rightarrow> False | Some p \<Rightarrow> eq_int p (int idx))
      | _ \<Rightarrow> False)"

text \<open>The events of a block that belong to position \<open>idx\<close>, in their order of arrival.\<close>

definition correlated :: "scale_obj list \<Rightarrow> nat \<Rightarrow> pyval list" where
  "correlated events idx = filter (position_is idx) (map getattr_value events)"

definition is_success_event :: "pyval \<Rightarrow> bool" where
  "is_success_event v = (getitem v ''event_id'' = Inr (PStr ''ExtrinsicSuccess''))"

text \<open>An event as the chain client delivers it: its value is missing or empty, or it is a
  dictionary with an event identifier.\<close>

definition wf_event :: "scale_obj \<Rightarrow> bool" where
  "wf_event ev =
     (case getattr_value ev of
        PDict kvs \<Rightarrow> kvs = [] \<or> map_of kvs ''event_id'' \<noteq> None
      | v \<Rightarrow> \<not> truthy v)"

text \<open>A call argument as the chain client delivers it: a dictionary with a name and a value.\<close>

definition wf_arg :: "pyval \<Rightarrow> bool" where
  "wf_arg a =
     (case a of
        PDict kvs \<Rightarrow> map_of kvs ''name'' \<noteq> None \<and> map_of kvs ''value'' \<noteq> None
      | _ \<Rightarrow> False)"

definition named_netuid :: "pyval \<Rightarrow> bool" where
  "named_netuid a = (getitem a ''name'' = Inr (PStr ''netuid''))"





text \<open>The uniqueness constraint of \<open>Call.call_index\<close>, as a property of the table.\<close>

definition calls_unique :: "db \<Rightarrow> bool" where
  "calls_unique d = distinct (map c_call_index (Call_objects d))"






text \<open>The row is the record of position \<open>i\<close>: its identifier, its events and its result are
  those the pipeline computes for that position.\<close>

definition recorded :: "scale_obj list \<Rightarrow> int \<Rightarrow> nat \<Rightarrow> extrinsic_row \<Rightarrow> bool" where
  "recorded events bn i row \<longleftrightarrow>
     e_idx row = format_idx bn i \<and>
     (\<exists>ok. extract_extrinsic_events events i = Inr (e_events row, ok)
        \<and> e_result row = (if ok then ''success'' else ''failed''))"

subsection \<open>A sample block\<close>

definition sample_timestamp_extrinsic :: scale_obj where
  "sample_timestamp_extrinsic =
     Some (PDict [(''extrinsic_hash'', PStr ''0x01''),
       (''call'', PDict [(''call_index'', PStr ''0x0200''), (''call_function'', PStr ''set''),
          (''call_module'', PStr ''Timestamp''),
          (''call_args'', PList [PDict [(''name'', PStr ''now''),
                                        (''value'', PInt 1700000000000)]])])])"

definition sample_call_args :: "pyval list" where
  "sample_call_args =
     [PDict [(''name'', PStr ''amount''), (''value'', PInt 5)],
      PDict [(''name'', PStr ''netuid''), (''value'', PInt 12)]]"

definition sample_stake_extrinsic :: scale_obj where
  "sample_stake_extrinsic =
     Some (PDict [(''extrinsic_hash'', PStr ''0x02''),
       (''call'', PDict [(''call_index'', PStr ''0x0700''),
          (''call_function'', PStr ''add_stake''), (''call_module'', PStr ''SubtensorModule''),
          (''call_args'', PList sample_call_args)])])"

definition sample_events :: "scale_obj list" where
  "sample_events =
     [Some (PDict [(''extrinsic_idx'', PInt 0), (''event_id'', PStr ''ExtrinsicSuccess'')]),
      Some (PDict [(''extrinsic_idx'', PInt 2), (''event_id'', PStr ''StakeAdded'')]),
      Some (PDict [(''extrinsic_idx'', PNone), (''event_id'', PStr ''NewSession'')]),
      Some (PDict [(''extrinsic_idx'', PInt 2), (''event_id'', PStr ''ExtrinsicFailed'')])]"

definition sample_extrinsics :: "scale_obj list" where
  "sample_extrinsics = [sample_timestamp_extrinsic, None, sample_stake_extrinsic]"

definition sample_block :: block_row where
  "sample_block = \<lparr>b_block_id = 3593992, b_block_hash = PStr ''0xb1'',
     b_parentHash = PStr ''0xb0'', b_stateRoot = PStr ''0x5a'', b_extrinsicsRoot = PStr ''0xe7'',
     b_timestamp = Some (UTC_instant 1700000000)\<rparr>"

text \<open>The tables after \<open>create_block_record\<close>, and after \<open>process_extrinsics\<close>.\<close>

definition sample_db :: db where
  "sample_db = \<lparr>Block_objects = [sample_block], Call_objects = [], Extrinsic_objects = []\<rparr>"

definition sample_row_0 :: extrinsic_row where
  "sample_row_0 = \<lparr>e_netuid = PNone, e_hash = PStr ''0x01'', e_address = PNone,
     e_block = 3593992, e_idx = format_idx 3593992 0, e_signature = PNone, e_tip = PNone,
     e_nonce = PNone, e_era = PNone, e_call_index = Some (PStr ''0x0200''),
     e_call_args = PList [PDict [(''name'', PStr ''now''), (''value'', PInt 1700000000000)]],
     e_result = ''success'',
     e_events = [PDict [(''extrinsic_idx'', PInt 0), (''event_id'', PStr ''ExtrinsicSuccess'')]]\<rparr>"

definition sample_row_2 :: extrinsic_row where
  "sample_row_2 = \<lparr>e_netuid = PInt 12, e_hash = PStr ''0x02'', e_address = PNone,
     e_block = 3593992, e_idx = format_idx 3593992 2, e_signature = PNone, e_tip = PNone,
     e_nonce = PNone, e_era = PNone, e_call_index = Some (PStr ''0x0700''),
     e_call_args = PList sample_call_args,
     e_result = ''failed'',
     e_events = [PDict [(''extrinsic_idx'', PInt 2), (''event_id'', PStr ''StakeAdded'')],
                 PDict [(''extrinsic_idx'', PInt 2), (''event_id'', PStr ''ExtrinsicFailed'')]]\<rparr>"

definition sample_db_after :: db where
  "sample_db_after = \<lparr>Block_objects = [sample_block],
     Call_objects =
       [\<lparr>c_call_index = PStr ''0x0200'', c_call_function = PStr ''set'',
          c_call_module = PStr ''Timestamp''\<rparr>,
        \<lparr>c_call_index = PStr ''0x0700'', c_call_function = PStr ''add_stake'',
          c_call_module = PStr ''SubtensorModule''\<rparr>],
     Extrinsic_objects = [sample_row_0, sample_row_2]\<rparr>"

text \<open>An extrinsic whose call carries no identifier.\<close>

definition sample_no_identifier :: scale_obj where
  "sample_no_identifier =
     Some (PDict [(''extrinsic_hash'', PStr ''0x03''),
       (''call'', PDict [(''call_function'', PStr ''remark''), (''call_module'', PStr ''System''),
          (''call_args'', PList [])])])"

text \<open>What the chain client returns for the sample block, and tables without rows.\<close>

definition sample_block_data :: block_data where
  "sample_block_data =
     \<lparr>header = PDict [(''parentHash'', PStr ''0xb0''), (''stateRoot'', PStr ''0x5a''),
                       (''extrinsicsRoot'', PStr ''0xe7'')],
      extrinsics = sample_extrinsics\<rparr>"

definition empty_db :: db where
  "empty_db = \<lparr>Block_objects = [], Call_objects = [], Extrinsic_objects = []\<rparr>"

text \<open>A second extrinsic with the call identifier of \<open>sample_stake_extrinsic\<close>.\<close>

definition sample_stake_again :: scale_obj where
  "sample_stake_again =
     Some (PDict [(''extrinsic_hash'', PStr ''0x04''),
       (''call'', PDict [(''call_index'', PStr ''0x0700''),
          (''call_function'', PStr ''add_stake''), (''call_module'', PStr ''SubtensorModule''),
          (''call_args'', PList [])])])"







section \<open>Sequencing\<close>

lemma and_then_Inl [simp]: "and_then (Inl e) f = Inl e"
  by (simp add: and_then_def)

lemma and_then_Inr [simp]: "and_then (Inr x) f = f x"
  by (simp add: and_then_def)

lemma and_then_eq_Inr: "and_then m f = Inr y \<longleftrightarrow> (\<exists>x. m = Inr x \<and> f x = Inr y)"
  by (cases m) simp_all

lemmas sample_defs = sample_extrinsics_def sample_events_def sample_block_def sample_db_def
  sample_row_0_def sample_row_2_def sample_db_after_def sample_timestamp_extrinsic_def
  sample_stake_extrinsic_def sample_call_args_def

lemmas pipeline_defs = process_extrinsics_def process_extrinsic_def getattr_value_def
  extract_extrinsic_events_def extract_extrinsic_details_def get_def call_index_instance_of_def
  Call_objects_values_list_def Call_objects_create_def Call_objects_get_def
  extrinsic_kwargs_def Extrinsic_objects_create_def Let_def sqlite_int_def int64_def
  char_field_def

section \<open>Event correlation\<close>

lemma extract_events_loop_Cons:
  "extract_events_loop (event # events) idx acc s =
     (if truthy (getattr_value event) \<and> \<not> is_dict (getattr_value event) then Inl AttributeError
      else if position_is idx (getattr_value event)
      then and_then (getitem (getattr_value event) ''event_id'') (\<lambda>eid.
             extract_events_loop events idx (acc @ [getattr_value event])
               (eid = PStr ''ExtrinsicSuccess'' \<or> s))
      else extract_events_loop events idx acc s)"
proof (cases "getattr_value event")
  case (PDict kvs)
  then show ?thesis
    by (cases kvs) (auto simp: Let_def get_def position_is_def is_dict_def split: option.splits
          intro!: arg_cong2[where f = and_then] ext)
qed (simp_all add: Let_def get_def position_is_def is_dict_def)

lemma extract_events_loop_Inr:
  "extract_events_loop events idx acc s = Inr (evs, ok) \<Longrightarrow>
     evs = acc @ correlated events idx \<and>
     (ok \<longleftrightarrow> s \<or> (\<exists>ev \<in> set (correlated events idx). is_success_event ev))"
proof (induction events arbitrary: acc s)
  case Nil
  then show ?case by (simp add: correlated_def)
next
  case (Cons event events)
  show ?case
  proof (cases "position_is idx (getattr_value event)")
    case True
    then have "is_dict (getattr_value event)"
      by (cases "getattr_value event") (simp_all add: position_is_def is_dict_def)
    with True Cons.prems obtain eid where
      eid: "getitem (getattr_value event) ''event_id'' = Inr eid" and
      rec: "extract_events_loop events idx (acc @ [getattr_value event])
             (eid = PStr ''ExtrinsicSuccess'' \<or> s) = Inr (evs, ok)"
      by (auto simp: extract_events_loop_Cons and_then_eq_Inr simp del: extract_events_loop.simps)
    from Cons.IH[OF rec] True eid show ?thesis
      by (auto simp: correlated_def is_success_event_def)
  next
    case False
    with Cons.prems have "extract_events_loop events idx acc s = Inr (evs, ok)"
      by (simp add: extract_events_loop_Cons del: extract_events_loop.simps split: if_splits)
    from Cons.IH[OF this] False show ?thesis
      by (simp add: correlated_def)
  qed
qed

lemma extract_events_loop_total:
  "list_all wf_event events \<Longrightarrow> \<exists>r. extract_events_loop events idx acc s = Inr r"
proof (induction events arbitrary: acc s)
  case Nil
  then show ?case by simp
next
  case (Cons event events)
  from Cons.prems have wf: "wf_event event" and rest: "list_all wf_event events" by simp_all
  from wf have d: "\<not> (truthy (getattr_value event) \<and> \<not> is_dict (getattr_value event))"
    by (cases "getattr_value event") (simp_all add: wf_event_def is_dict_def)
  show ?case
  proof (cases "position_is idx (getattr_value event)")
    case True
    with wf obtain eid where "getitem (getattr_value event) ''event_id'' = Inr eid"
      by (cases "getattr_value event") (auto simp: wf_event_def position_is_def split: option.splits)
    with True d Cons.IH[OF rest] show ?thesis
      by (simp add: extract_events_loop_Cons del: extract_events_loop.simps)
  next
    case False
    with d Cons.IH[OF rest] show ?thesis
      by (simp add: extract_events_loop_Cons del: extract_events_loop.simps)
  qed
qed

lemma extract_extrinsic_events_Inr:
  "extract_extrinsic_events events idx = Inr (evs, ok) \<Longrightarrow>
     evs = correlated events idx \<and> (ok \<longleftrightarrow> (\<exists>ev \<in> set evs. is_success_event ev))"
  using extract_events_loop_Inr[of events idx "[]" False evs ok]
  by (simp add: extract_extrinsic_events_def)

text \<open>
  Claim C6. For a list of events of the shape the chain client delivers and any position
  \<open>idx\<close>, event correlation returns exactly the event values whose extrinsic-position
  field equals \<open>idx\<close>, in the order in which they appear in the list of the block.
\<close>

theorem extract_extrinsic_events_correlated:
  assumes "list_all wf_event events"
  shows "\<exists>ok. extract_extrinsic_events events idx =
           Inr (filter (position_is idx) (map getattr_value events), ok)"
proof -
  from extract_events_loop_total[OF assms] obtain evs ok where
    r: "extract_events_loop events idx [] False = Inr (evs, ok)" by fastforce
  from extract_events_loop_Inr[OF r] r show ?thesis
    by (auto simp: extract_extrinsic_events_def correlated_def)
qed

theorem extract_extrinsic_events_correlated_witness:
  "list_all wf_event sample_events \<and>
   (\<exists>ok. extract_extrinsic_events sample_events 2 =
      Inr ([PDict [(''extrinsic_idx'', PInt 2), (''event_id'', PStr ''StakeAdded'')],
            PDict [(''extrinsic_idx'', PInt 2), (''event_id'', PStr ''ExtrinsicFailed'')]], ok))"
proof -
  have h: "list_all wf_event sample_events"
    by (simp add: sample_events_def wf_event_def getattr_value_def)
  from extract_extrinsic_events_correlated[OF h, of 2] h show ?thesis
    by (simp add: sample_events_def position_is_def getattr_value_def)
qed

section \<open>Tag extraction\<close>

lemma first_netuid_wf:
  "list_all wf_arg args \<Longrightarrow>
     first_netuid args =
       (case find named_netuid args of None \<Rightarrow> Inr PNone | Some a \<Rightarrow> getitem a ''value'')"
proof (induction args)
  case Nil
  then show ?case by simp
next
  case (Cons a args)
  from Cons.prems obtain kvs n where a: "a = PDict kvs" "map_of kvs ''name'' = Some n"
    by (cases a) (auto simp: wf_arg_def)
  with Cons show ?case
    by (simp add: named_netuid_def)
qed

lemma first_netuid_total:
  "list_all wf_arg args \<Longrightarrow> \<exists>t. first_netuid args = Inr t"
proof (induction args)
  case Nil
  then show ?case by simp
next
  case (Cons a args)
  from Cons.prems obtain kvs n v where "a = PDict kvs" "map_of kvs ''name'' = Some n"
    "map_of kvs ''value'' = Some v"
    by (cases a) (auto simp: wf_arg_def)
  with Cons show ?case by simp
qed

text \<open>
  Claim C7. For a call whose arguments are a list of name and value pairs, tag extraction
  returns the value of the first argument named \<open>netuid\<close> when there is one, and \<open>None\<close>
  when no argument has that name. The arguments \<open>[{amount: 5}, {netuid: 12}]\<close> give 12.
\<close>

theorem extract_extrinsic_details_netuid:
  assumes call: "get_default v ''call'' (PDict []) = Inr call"
    and args: "get_default call ''call_args'' (PList []) = Inr (PList args)"
    and wf: "list_all wf_arg args"
  shows "\<exists>d tag. extract_extrinsic_details v = Inr (d, tag) \<and>
           (case find named_netuid args of
              None \<Rightarrow> tag = PNone
            | Some a \<Rightarrow> getitem a ''value'' = Inr tag)"
proof -
  from first_netuid_total[OF wf] obtain tag where tag: "first_netuid args = Inr tag" ..
  from args obtain c where c: "call = PDict c" by (cases call) simp_all
  from tag first_netuid_wf[OF wf]
  have "case find named_netuid args of None \<Rightarrow> tag = PNone | Some a \<Rightarrow> getitem a ''value'' = Inr tag"
    by (auto split: option.splits)
  moreover from call args tag c have "\<exists>d. extract_extrinsic_details v = Inr (d, tag)"
    by (simp add: extract_extrinsic_details_def get_def)
  ultimately show ?thesis by blast
qed

theorem extract_extrinsic_details_netuid_witness:
  "get_default (PDict [(''call'', PDict [(''call_args'', PList sample_call_args)])])
      ''call'' (PDict []) = Inr (PDict [(''call_args'', PList sample_call_args)]) \<and>
   get_default (PDict [(''call_args'', PList sample_call_args)]) ''call_args'' (PList [])
      = Inr (PList sample_call_args) \<and>
   list_all wf_arg sample_call_args \<and>
   (\<exists>d. extract_extrinsic_details
           (PDict [(''call'', PDict [(''call_args'', PList sample_call_args)])])
         = Inr (d, PInt 12))"
proof -
  let ?call = "PDict [(''call_args'', PList sample_call_args)]"
  have h1: "get_default (PDict [(''call'', ?call)]) ''call'' (PDict []) = Inr ?call" by simp
  have h2: "get_default ?call ''call_args'' (PList []) = Inr (PList sample_call_args)" by simp
  have h3: "list_all wf_arg sample_call_args" by (simp add: sample_call_args_def wf_arg_def)
  from extract_extrinsic_details_netuid[OF h1 h2 h3] h1 h2 h3 show ?thesis
    by (simp add: sample_call_args_def named_netuid_def)
qed

section \<open>Doubles and timestamps\<close>

lemma round_half_even_near: "\<bar>of_int (round_half_even y) - y\<bar> \<le> 1 / 2"
proof -
  have "of_int \<lfloor>y\<rfloor> \<le> y" "y < of_int \<lfloor>y\<rfloor> + 1" by linarith+
  then show ?thesis
    by (auto simp: round_half_even_def Let_def)
qed

lemma round_half_even_unique:
  assumes "\<bar>y - of_int n\<bar> < 1 / 2"
  shows "round_half_even y = n"
proof -
  have "\<bar>of_int (round_half_even y) - (of_int n :: rat)\<bar> < 1"
    using round_half_even_near[of y] assms by linarith
  then have "\<bar>round_half_even y - n\<bar> < 1"
    by (metis of_int_diff of_int_abs of_int_less_1_iff)
  then show ?thesis by linarith
qed

lemma round_half_even_of_int [simp]: "round_half_even (of_int n) = n"
  by (rule round_half_even_unique) simp

lemma quotient_of_pos:
  assumes "0 < x"
  shows "0 < fst (quotient_of x)" "0 < snd (quotient_of x)"
    "x = of_int (fst (quotient_of x)) / of_int (snd (quotient_of x))"
proof -
  obtain a b where ab: "quotient_of x = (a, b)" by (cases "quotient_of x")
  from quotient_of_denom_pos[OF ab] show "0 < snd (quotient_of x)" by (simp add: ab)
  show "x = of_int (fst (quotient_of x)) / of_int (snd (quotient_of x))"
    by (metis ab fst_conv snd_conv quotient_of_div)
  with assms \<open>0 < snd (quotient_of x)\<close> show "0 < fst (quotient_of x)"
    by (metis of_int_0_less_iff zero_less_divide_iff not_less_iff_gr_or_eq of_int_pos)
qed


lemma ilog2_lower:
  assumes "0 < x"
  shows "2 powi ilog2 x \<le> x"
proof -
  let ?a = "fst (quotient_of x)" and ?b = "snd (quotient_of x)"
  let ?e = "bitlen ?a - bitlen ?b"
  note q = quotient_of_pos[OF assms]
  show ?thesis
  proof (cases "2 powi ?e \<le> x")
    case True
    then show ?thesis by (simp add: ilog2_def Let_def)
  next
    case False
    from bitlen_bounds[OF q(1)] have a: "(2::rat) ^ nat (bitlen ?a - 1) \<le> of_int ?a"
      by (metis of_int_le_iff of_int_numeral of_int_power)
    from bitlen_bounds[OF q(2)] have b: "of_int ?b < (2::rat) ^ nat (bitlen ?b)"
      by (metis of_int_less_iff of_int_numeral of_int_power)
    from q(1) have la: "1 \<le> bitlen ?a" using bitlen_eq_zero_iff[of ?a] bitlen_nonneg[of ?a] by linarith
    have "(2::rat) powi ((bitlen ?a - 1) - bitlen ?b) = 2 powi (bitlen ?a - 1) / 2 powi bitlen ?b"
      by (rule power_int_diff) simp
    moreover have "(bitlen ?a - 1) - bitlen ?b = ?e - 1" by simp
    ultimately have "(2::rat) powi (?e - 1) = 2 ^ nat (bitlen ?a - 1) / 2 ^ nat (bitlen ?b)"
      using la bitlen_nonneg[of ?b] by (simp add: power_int_nonneg_exp)
    also have "\<dots> \<le> of_int ?a / 2 ^ nat (bitlen ?b)"
      using a by (simp add: divide_right_mono)
    also have "\<dots> \<le> of_int ?a / of_int ?b"
      using b q(1,2) by (simp add: frac_le)
    also have "\<dots> = x" using q(3) by simp
    finally show ?thesis using False by (simp add: ilog2_def Let_def)
  qed
qed

lemma ilog2_upper:
  assumes "0 < x"
  shows "x < 2 powi (ilog2 x + 1)"
proof -
  let ?a = "fst (quotient_of x)" and ?b = "snd (quotient_of x)"
  let ?e = "bitlen ?a - bitlen ?b"
  note q = quotient_of_pos[OF assms]
  show ?thesis
  proof (cases "2 powi ?e \<le> x")
    case False
    then show ?thesis by (simp add: ilog2_def Let_def)
  next
    case True
    from bitlen_bounds[OF q(1)] have a: "of_int ?a < (2::rat) ^ nat (bitlen ?a)"
      by (metis of_int_less_iff of_int_numeral of_int_power)
    from bitlen_bounds[OF q(2)] have b: "(2::rat) ^ nat (bitlen ?b - 1) \<le> of_int ?b"
      by (metis of_int_le_iff of_int_numeral of_int_power)
    from q(2) have lb: "1 \<le> bitlen ?b" using bitlen_eq_zero_iff[of ?b] bitlen_nonneg[of ?b] by linarith
    have "x = of_int ?a / of_int ?b" using q(3) by simp
    also have "\<dots> < 2 ^ nat (bitlen ?a) / of_int ?b"
      using a q(2) by (simp add: divide_strict_right_mono)
    also have "\<dots> \<le> 2 ^ nat (bitlen ?a) / 2 ^ nat (bitlen ?b - 1)"
      using b by (simp add: frac_le)
    also have "\<dots> = (2::rat) powi (?e + 1)"
    proof -
      have "(2::rat) powi (bitlen ?a - (bitlen ?b - 1)) = 2 powi bitlen ?a / 2 powi (bitlen ?b - 1)"
        by (rule power_int_diff) simp
      moreover have "bitlen ?a - (bitlen ?b - 1) = ?e + 1" by simp
      ultimately show ?thesis
        using lb bitlen_nonneg[of ?a] by (simp add: power_int_nonneg_exp)
    qed
    finally show ?thesis using True by (simp add: ilog2_def Let_def)
  qed
qed

lemma ilog2_less:
  assumes "0 < x" "x < 2 powi E"
  shows "ilog2 x < E"
proof (rule ccontr)
  assume "\<not> ilog2 x < E"
  then have "(2::rat) powi E \<le> 2 powi ilog2 x"
    by (intro power_int_increasing) simp_all
  with ilog2_lower[OF assms(1)] assms(2) show False by linarith
qed

lemma ilog2_unique:
  assumes "2 powi e \<le> x" "x < 2 powi (e + 1)"
  shows "ilog2 x = e"
proof -
  have pos: "0 < x" using assms(1) zero_less_power_int[of "2::rat" e] by linarith
  from ilog2_less[OF pos assms(2)] have "ilog2 x \<le> e" by simp
  moreover have "e < ilog2 x + 1"
  proof (rule ccontr)
    assume "\<not> e < ilog2 x + 1"
    then have "(2::rat) powi (ilog2 x + 1) \<le> 2 powi e"
      by (intro power_int_increasing) simp_all
    with ilog2_upper[OF pos] assms(1) show False by linarith
  qed
  ultimately show ?thesis by linarith
qed



lemma double_of_minus: "double_of (- x) = - double_of x"
  by (simp add: double_of_def Let_def)

lemma double_of_error:
  assumes pos: "0 < x" and less: "x < 2 powi E" and E: "- 1021 \<le> E"
  shows "\<bar>double_of x - x\<bar> \<le> 2 powi (E - 54)"
proof -
  define k where "k = max (ilog2 x - 52) (- 1074)"
  define m where "m = round_half_even (x / 2 powi k)"
  have p: "(0::rat) < 2 powi k" by simp
  from ilog2_less[OF pos less] E have k: "k \<le> E - 53" by (simp add: k_def)
  have d: "double_of x = of_int m * 2 powi k"
    using pos by (simp add: double_of_def Let_def k_def m_def)
  have "\<bar>of_int m - x / 2 powi k\<bar> \<le> 1 / 2"
    unfolding m_def by (rule round_half_even_near)
  then have "\<bar>of_int m - x / 2 powi k\<bar> * 2 powi k \<le> 1 / 2 * 2 powi k"
    using p by (intro mult_right_mono) simp_all
  moreover have "\<bar>of_int m - x / 2 powi k\<bar> * 2 powi k = \<bar>of_int m * 2 powi k - x\<bar>"
  proof -
    have "\<bar>of_int m - x / 2 powi k\<bar> * 2 powi k = \<bar>(of_int m - x / 2 powi k) * 2 powi k\<bar>"
      using p by (simp add: abs_mult)
    also have "(of_int m - x / 2 powi k) * 2 powi k = of_int m * 2 powi k - x"
      using p by (simp add: field_simps)
    finally show ?thesis .
  qed
  moreover have "1 / 2 * (2::rat) powi k = 2 powi (k - 1)"
    by (simp add: power_int_diff)
  moreover have "(2::rat) powi (k - 1) \<le> 2 powi (E - 54)"
    using k by (intro power_int_increasing) simp_all
  ultimately show ?thesis unfolding d by linarith
qed

lemma double_of_int_exact:
  assumes "\<bar>n\<bar> < 2 ^ 53"
  shows "double_of (of_int n) = of_int n"
proof (cases "n = 0")
  case True
  then show ?thesis by (simp add: double_of_def)
next
  case False
  let ?x = "\<bar>of_int n :: rat\<bar>"
  define k where "k = max (ilog2 ?x - 52) (- 1074)"
  have pos: "0 < ?x" using False by simp
  have "?x < 2 powi 53"
    using assms by (metis of_int_abs of_int_less_iff of_int_numeral of_int_power power_int_numeral)
  from ilog2_less[OF pos this] have k: "k \<le> 0" by (simp add: k_def)
  have pk: "(2::rat) powi k = 1 / 2 ^ nat (- k)"
    using k power_int_minus_divide[of "2::rat" "- k"] by (simp add: power_int_nonneg_exp)
  have "?x / 2 powi k = of_int (\<bar>n\<bar> * 2 ^ nat (- k))"
    by (simp add: pk)
  then have "round_half_even (?x / 2 powi k) = \<bar>n\<bar> * 2 ^ nat (- k)"
    by (simp only: round_half_even_of_int)
  then have "of_int (round_half_even (?x / 2 powi k)) * 2 powi k = ?x"
    by (simp add: pk)
  then have "sgn (of_int n :: rat) * of_int (round_half_even (?x / 2 powi k)) * 2 powi k = of_int n"
    by (simp add: mult.assoc sgn_mult_abs)
  with False show ?thesis by (simp add: double_of_def Let_def k_def)
qed



lemma ms_fraction:
  fixes M :: int
  assumes M: "0 < M" "M < 8589934592000" and rr: "0 < M mod 1000"
  defines "K \<equiv> M div 1000" and "fa \<equiv> double_of (of_int M / 1000)"
  shows "of_int K < fa" "fa < of_int K + 1"
    "\<bar>double_of ((fa - of_int K) * 1000000) - of_int (1000 * (M mod 1000))\<bar> < 1 / 2"
proof -
  define q :: rat where "q = of_int M / 1000"
  define r :: rat where "r = of_int (M mod 1000)"
  define k :: rat where "k = of_int K"
  define p :: rat where "p = (fa - k) * 1000000"
  have q: "q = k + r / 1000"
  proof -
    have "M = 1000 * K + M mod 1000" by (simp add: K_def)
    then have "(of_int M :: rat) = 1000 * of_int K + of_int (M mod 1000)"
      by (metis of_int_add of_int_mult of_int_numeral)
    then show ?thesis by (simp add: q_def r_def k_def field_simps)
  qed
  from rr have "1 \<le> M mod 1000" by linarith
  then have r1: "1 \<le> r" unfolding r_def by (simp only: of_int_1_le_iff)
  have "M mod 1000 < 1000" by simp
  then have "M mod 1000 \<le> 999" by linarith
  then have r2: "r \<le> 999" unfolding r_def by (metis of_int_le_iff of_int_numeral)
  have "0 < q" using M(1) by (simp add: q_def)
  moreover have "q < 2 powi 33"
  proof -
    have "(of_int M :: rat) < 8589934592000" using M(2) by (metis of_int_less_iff of_int_numeral)
    then show ?thesis by (simp add: q_def)
  qed
  ultimately have "\<bar>double_of q - q\<bar> \<le> 2 powi (33 - 54)"
    by (rule double_of_error) simp
  moreover have "(2::rat) powi (33 - 54) = 1 / 2097152" by simp
  ultimately have e1: "\<bar>fa - q\<bar> \<le> 1 / 2097152" by (simp only: fa_def q_def)
  from e1 q r1 have lo: "k < fa" by linarith
  from e1 q r2 have hi: "fa < k + 1" by linarith
  from lo show "of_int K < fa" by (simp only: k_def)
  from hi show "fa < of_int K + 1" by (simp only: k_def)
  have "p - 1000 * r = 1000000 * (fa - q)"
    by (simp add: p_def q algebra_simps)
  then have "\<bar>p - 1000 * r\<bar> = \<bar>1000000 * (fa - q)\<bar>"
    by (simp only:)
  also have "\<dots> = 1000000 * \<bar>fa - q\<bar>"
    by (simp only: abs_mult abs_numeral)
  finally have "\<bar>p - 1000 * r\<bar> = 1000000 * \<bar>fa - q\<bar>" .
  moreover from e1 have "1000000 * \<bar>fa - q\<bar> \<le> 1000000 * (1 / 2097152)"
    by (rule mult_left_mono) simp
  ultimately have pe: "\<bar>p - 1000 * r\<bar> \<le> 1000000 / 2097152"
    by simp
  have "0 < p" using lo by (simp add: p_def)
  moreover have "p < 2 powi 20" using hi by (simp add: p_def)
  ultimately have "\<bar>double_of p - p\<bar> \<le> 2 powi (20 - 54)"
    by (rule double_of_error) simp
  moreover have "(2::rat) powi (20 - 54) = 1 / 17179869184" by simp
  ultimately have "\<bar>double_of p - p\<bar> \<le> 1 / 17179869184" by (simp only:)
  with pe have "\<bar>double_of p - 1000 * r\<bar> < 1 / 2" by linarith
  moreover have "1000 * r = of_int (1000 * (M mod 1000))" by (simp add: r_def)
  ultimately show "\<bar>double_of ((fa - of_int K) * 1000000) - of_int (1000 * (M mod 1000))\<bar> < 1 / 2"
    by (simp only: p_def k_def)
qed





lemma ms_double_bounds:
  fixes M :: int
  assumes M: "0 < M" "M < 8589934592000"
  shows "0 < double_of (of_int M / 1000)" "double_of (of_int M / 1000) < 8589934592"
proof -
  define q :: rat where "q = of_int M / 1000"
  from M(1) have "1 \<le> M" by linarith
  then have "(1::rat) \<le> of_int M" by (simp only: of_int_1_le_iff)
  then have lo: "1 / 1000 \<le> q" by (simp add: q_def)
  have "M \<le> 8589934591999" using M(2) by linarith
  then have "(of_int M :: rat) \<le> 8589934591999" by (metis of_int_le_iff of_int_numeral)
  then have hi: "q \<le> 8589934591999 / 1000" by (simp add: q_def)
  have "0 < q" using lo by linarith
  moreover have "q < 2 powi 33" using hi by simp
  ultimately have "\<bar>double_of q - q\<bar> \<le> 2 powi (33 - 54)"
    by (rule double_of_error) simp
  moreover have "(2::rat) powi (33 - 54) = 1 / 2097152" by simp
  ultimately have e: "\<bar>double_of q - q\<bar> \<le> 1 / 2097152" by (simp only:)
  from e lo show "0 < double_of (of_int M / 1000)" unfolding q_def[symmetric] by linarith
  from e hi show "double_of (of_int M / 1000) < 8589934592" unfolding q_def[symmetric] by linarith
qed




lemma div_mod_1000: "(M::int) = 1000 * (M div 1000) + M mod 1000"
  by simp

lemma ms_div_bounds:
  fixes M :: int
  assumes "0 < M" "M < 8589934592000"
  shows "0 \<le> M div 1000" "M div 1000 < 8589934592" "0 \<le> M mod 1000" "M mod 1000 < 1000"
proof -
  show m0: "0 \<le> M mod 1000" and m1: "M mod 1000 < 1000" by simp_all
  from div_mod_1000[of M] assms m0 m1 show "0 \<le> M div 1000" by linarith
  from div_mod_1000[of M] assms m0 m1 show "M div 1000 < 8589934592" by linarith
qed

lemma ms_whole:
  fixes M :: int
  assumes "0 < M" "M < 8589934592000" "M mod 1000 = 0"
  shows "double_of (of_int M / 1000) = of_int (M div 1000)"
proof -
  from div_mod_1000[of M] assms(3) have "M = 1000 * (M div 1000)" by linarith
  then have "(of_int M :: rat) = 1000 * of_int (M div 1000)"
    by (metis of_int_mult of_int_numeral)
  then have q: "(of_int M / 1000 :: rat) = of_int (M div 1000)" by simp
  have "(2::int) ^ 53 = 9007199254740992" by simp
  with ms_div_bounds(1,2)[OF assms(1,2)] have "\<bar>M div 1000\<bar> < 2 ^ 53" by linarith
  then show ?thesis unfolding q by (rule double_of_int_exact)
qed



lemma double_of_0 [simp]: "double_of 0 = 0"
  by (simp add: double_of_def)

lemma round_half_even_0 [simp]: "round_half_even 0 = 0"
  using round_half_even_of_int[of 0] by simp

lemma timeval_of_ms_pos:
  fixes M :: int
  assumes M: "0 < M" "M < 8589934592000"
  shows "timeval_of (double_of (of_int M / 1000)) = (M div 1000, 1000 * (M mod 1000))"
proof (cases "M mod 1000 = 0")
  case True
  note K = ms_div_bounds[OF M]
  from K(1) have "(0::rat) \<le> of_int (M div 1000)" by simp
  with True show ?thesis
    unfolding ms_whole[OF M True] by (simp add: timeval_of_def)
next
  case False
  note K = ms_div_bounds[OF M]
  from False K(3) have rr: "0 < M mod 1000" by linarith
  define fa where "fa = double_of (of_int M / 1000)"
  note fr = ms_fraction[OF M rr, folded fa_def]
  from K(1) have "(0::rat) \<le> of_int (M div 1000)" by simp
  with fr(1) have pos: "0 \<le> fa" by linarith
  from fr(1,2) have fl: "\<lfloor>fa\<rfloor> = M div 1000" by (intro floor_unique) simp_all
  from fr(3) have r: "round_half_even (double_of ((fa - of_int (M div 1000)) * 1000000))
      = 1000 * (M mod 1000)"
    by (rule round_half_even_unique)
  from K(4) rr have "\<not> 1000000 \<le> 1000 * (M mod 1000)" "\<not> 1000 * (M mod 1000) < 0" by linarith+
  then show ?thesis
    unfolding fa_def[symmetric] timeval_of_def Let_def by (simp only: pos fl r if_True if_False)
qed

lemma timeval_of_ms_neg:
  fixes M :: int
  assumes M: "0 < M" "M < 8589934592000"
  shows "timeval_of (- double_of (of_int M / 1000)) =
           (if M mod 1000 = 0 then (- (M div 1000), 0)
            else (- (M div 1000) - 1, 1000000 - 1000 * (M mod 1000)))"
proof (cases "M mod 1000 = 0")
  case True
  from div_mod_1000[of M] True M(1) have "0 < M div 1000" by linarith
  then have "\<not> (0::rat) \<le> - of_int (M div 1000)" by simp
  moreover have "\<lceil>- (of_int (M div 1000) :: rat)\<rceil> = - (M div 1000)"
    by (metis ceiling_of_int of_int_minus)
  ultimately show ?thesis
    using True unfolding ms_whole[OF M True] by (simp add: timeval_of_def)
next
  case False
  note K = ms_div_bounds[OF M]
  from False K(3) have rr: "0 < M mod 1000" by linarith
  define fa where "fa = double_of (of_int M / 1000)"
  note fr = ms_fraction[OF M rr, folded fa_def]
  from K(1) have "(0::rat) \<le> of_int (M div 1000)" by simp
  with fr(1) have neg: "\<not> 0 \<le> - fa" by linarith
  have ce: "\<lceil>- fa\<rceil> = - (M div 1000)"
  proof (rule ceiling_unique)
    show "of_int (- (M div 1000)) - 1 < - fa" using fr(2) by simp
    show "- fa \<le> of_int (- (M div 1000))" using fr(1) by simp
  qed
  have "(- fa - of_int (- (M div 1000))) * 1000000 = - ((fa - of_int (M div 1000)) * 1000000)"
    by simp
  then have "double_of ((- fa - of_int (- (M div 1000))) * 1000000)
      = - double_of ((fa - of_int (M div 1000)) * 1000000)"
    by (simp only: double_of_minus)
  moreover have "(of_int (- (1000 * (M mod 1000))) :: rat) = - of_int (1000 * (M mod 1000))"
    by simp
  ultimately have "\<bar>double_of ((- fa - of_int (- (M div 1000))) * 1000000)
      - of_int (- (1000 * (M mod 1000)))\<bar> < 1 / 2"
    using fr(3) by linarith
  then have r: "round_half_even (double_of ((- fa - of_int (- (M div 1000))) * 1000000))
      = - (1000 * (M mod 1000))"
    by (rule round_half_even_unique)
  from K(4) rr have c: "\<not> 1000000 \<le> - (1000 * (M mod 1000))" "- (1000 * (M mod 1000)) < 0"
    by linarith+
  have "timeval_of (- fa) = (- (M div 1000) - 1, - (1000 * (M mod 1000)) + 1000000)"
    unfolding timeval_of_def Let_def by (simp only: neg ce r c if_True if_False)
  with False show ?thesis unfolding fa_def[symmetric] by simp
qed



lemma fromtimestamp_utc_in_range:
  assumes "timeval_of d = (sec, us)" "- 8589934593 \<le> sec" "sec \<le> 8589934592"
  shows "fromtimestamp_utc d = Inr (UTC_instant (of_int sec + of_int us / 1000000))"
proof -
  have p: "(2::int) ^ 63 = 9223372036854775808" by simp
  from assms(2,3) have "\<not> (sec < - (2 ^ 63) \<or> 2 ^ 63 \<le> sec)"
    "\<not> (sec < - 67768040609740800 \<or> 67768036191676799 < sec)"
    "\<not> (sec < - 62135596800 \<or> 253402300799 < sec)"
    unfolding p by linarith+
  then show ?thesis
    unfolding fromtimestamp_utc_def Let_def assms(1) fst_conv snd_conv
    by (simp only: if_False)
qed

lemma int_truediv_1000_small:
  assumes "\<bar>double_of (of_int i / 1000)\<bar> < 8589934592"
  shows "int_truediv_1000 i = Inr (double_of (of_int i / 1000))"
proof -
  have "(8589934592::rat) \<le> 2 ^ 1024" by simp
  with assms have "\<not> 2 ^ 1024 \<le> \<bar>double_of (of_int i / 1000)\<bar>" by linarith
  then show ?thesis by (simp add: int_truediv_1000_def Let_def)
qed

lemma ms_value:
  fixes M :: int
  shows "(of_int (M div 1000) + of_int (1000 * (M mod 1000)) / 1000000 :: rat) = of_int M / 1000"
proof -
  have "(of_int M :: rat) = 1000 * of_int (M div 1000) + of_int (M mod 1000)"
    using div_mod_1000[of M] by (metis of_int_add of_int_mult of_int_numeral)
  then show ?thesis by (simp add: field_simps)
qed

lemma fromtimestamp_ms:
  assumes "\<bar>ms\<bar> < 8589934592000"
  shows "and_then (truediv_1000 (PInt ms)) fromtimestamp_utc = Inr (UTC_instant (of_int ms / 1000))"
proof -
  consider "ms = 0" | "0 < ms" | "ms < 0" by linarith
  then show ?thesis
  proof cases
    case 1
    have "timeval_of 0 = (0, 0)" by (simp add: timeval_of_def)
    from fromtimestamp_utc_in_range[OF this] have "fromtimestamp_utc 0 = Inr (UTC_instant 0)"
      by simp
    with 1 show ?thesis by (simp add: int_truediv_1000_def)
  next
    case 2
    with assms have M: "0 < ms" "ms < 8589934592000" by linarith+
    note b = ms_double_bounds[OF M] and K = ms_div_bounds[OF M]
    from b have "\<bar>double_of (of_int ms / 1000)\<bar> < 8589934592" by linarith
    from int_truediv_1000_small[OF this]
    have d: "truediv_1000 (PInt ms) = Inr (double_of (of_int ms / 1000))" by simp
    from K(1,2) have "- 8589934593 \<le> ms div 1000" "ms div 1000 \<le> 8589934592" by linarith+
    from fromtimestamp_utc_in_range[OF timeval_of_ms_pos[OF M] this]
    show ?thesis unfolding d and_then_Inr ms_value .
  next
    case 3
    define M where "M = - ms"
    with 3 assms have M: "0 < M" "M < 8589934592000" by linarith+
    note b = ms_double_bounds[OF M] and K = ms_div_bounds[OF M]
    have ms: "(of_int ms / 1000 :: rat) = - (of_int M / 1000)" by (simp add: M_def)
    from b have "\<bar>double_of (of_int ms / 1000)\<bar> < 8589934592"
      unfolding ms double_of_minus by linarith
    from int_truediv_1000_small[OF this]
    have d: "truediv_1000 (PInt ms) = Inr (- double_of (of_int M / 1000))"
      by (simp add: ms double_of_minus)
    show ?thesis
    proof (cases "M mod 1000 = 0")
      case True
      then have tv: "timeval_of (- double_of (of_int M / 1000)) = (- (M div 1000), 0)"
        by (simp add: timeval_of_ms_neg[OF M])
      from K(1,2) have "- 8589934593 \<le> - (M div 1000)" "- (M div 1000) \<le> 8589934592"
        by linarith+
      from fromtimestamp_utc_in_range[OF tv this]
      have "fromtimestamp_utc (- double_of (of_int M / 1000))
          = Inr (UTC_instant (- of_int (M div 1000)))" by simp
      moreover from ms_value[of M] True have "(of_int (M div 1000) :: rat) = of_int M / 1000"
        by simp
      ultimately show ?thesis unfolding d and_then_Inr ms by (simp only:)
    next
      case False
      then have tv: "timeval_of (- double_of (of_int M / 1000))
          = (- (M div 1000) - 1, 1000000 - 1000 * (M mod 1000))"
        by (simp add: timeval_of_ms_neg[OF M])
      from K(1,2) have "- 8589934593 \<le> - (M div 1000) - 1" "- (M div 1000) - 1 \<le> 8589934592"
        by linarith+
      note r = fromtimestamp_utc_in_range[OF tv this]
      have "(of_int (- (M div 1000) - 1) + of_int (1000000 - 1000 * (M mod 1000)) / 1000000 :: rat)
          = - (of_int (M div 1000) + of_int (1000 * (M mod 1000)) / 1000000)"
        by (simp add: field_simps)
      also have "\<dots> = - (of_int M / 1000)" by (simp only: ms_value)
      finally show ?thesis unfolding d and_then_Inr ms r by (simp only:)
    qed
  qed
qed

section \<open>Timestamp extraction: the first \<open>Timestamp.set\<close>\<close>







section \<open>Position identifiers are injective\<close>







lemma digit_cases: "(d::nat) < 10 \<Longrightarrow> d \<in> {0, 1, 2, 3, 4, 5, 6, 7, 8, 9}"
  by (simp add: less_Suc_eq numeral_eq_Suc)

lemma digit_val_digit_char: "d < 10 \<Longrightarrow> digit_val (digit_char d) = d"
proof -
  assume "d < 10"
  from digit_cases[OF this] show ?thesis
    by (auto simp: digit_val_def digit_char_def)
qed

lemma val_of_snoc: "val_of (s @ [c]) = 10 * val_of s + digit_val c"
  by (simp add: val_of_def)

lemma val_of_str_of_nat: "val_of (str_of_nat n) = n"
proof (induction n rule: str_of_nat.induct)
  case (1 n)
  show ?case
  proof (cases "n < 10")
    case True
    then show ?thesis
      by (subst str_of_nat.simps) (simp add: val_of_def digit_val_digit_char)
  next
    case False
    with "1" have "val_of (str_of_nat (n div 10)) = n div 10" by simp
    with False show ?thesis
      by (subst str_of_nat.simps) (simp add: val_of_snoc digit_val_digit_char)
  qed
qed

lemma foldl_zeros: "foldl (\<lambda>a c. 10 * a + digit_val c) 0 (replicate k CHR ''0'') = 0"
  by (induction k) (simp_all add: digit_val_def)

lemma val_of_format_04: "val_of (format_04 idx) = idx"
proof -
  have "val_of (format_04 idx) = val_of (str_of_nat idx)"
    by (simp add: format_04_def Let_def val_of_def foldl_zeros)
  then show ?thesis by (simp add: val_of_str_of_nat)
qed

lemma format_idx_inj: "format_idx b i = format_idx b j \<Longrightarrow> i = j"
proof -
  assume "format_idx b i = format_idx b j"
  then have "format_04 i = format_04 j" by (simp add: format_idx_def)
  then have "val_of (format_04 i) = val_of (format_04 j)" by simp
  then show ?thesis by (simp add: val_of_format_04)
qed





lemma format_idx_example: "format_idx 3593992 7 = ''3593992-0007''"
proof -
  have r3: "replicate 3 CHR ''0'' = ''000''"
    by (simp add: numeral_3_eq_3)
  have s7: "str_of_nat 7 = ''7''"
    by (simp add: str_of_nat.simps digit_char_def)
  have f4: "format_04 7 = ''0007''"
    by (simp add: format_04_def s7 r3)
  have sb: "str_of_int 3593992 = ''3593992''"
    by (simp add: str_of_int_def str_of_nat.simps digit_char_def)
  show ?thesis
    by (simp add: format_idx_def f4 sb)
qed

section \<open>One extrinsic\<close>

lemma char_field_PStr [simp]: "char_field (PStr s) = PStr s"
  by (simp add: char_field_def)

lemma char_field_PNone [simp]: "char_field PNone = PNone"
  by (simp add: char_field_def)

lemma Extrinsic_objects_create_Inr:
  "Extrinsic_objects_create row d = Inr d' \<Longrightarrow>
     \<exists>stored. d' = d\<lparr>Extrinsic_objects := Extrinsic_objects d @ [stored]\<rparr>
       \<and> e_idx stored = e_idx row \<and> e_events stored = e_events row
       \<and> e_result stored = e_result row \<and> e_block stored = e_block row
       \<and> e_call_args stored = e_call_args row
       \<and> e_call_index stored = map_option char_field (e_call_index row)
       \<and> e_call_index row \<noteq> None"
  by (auto simp: Extrinsic_objects_create_def and_then_eq_Inr Let_def
        split: option.splits if_splits)

lemma Extrinsic_objects_create_no_call:
  assumes "e_call_index row = None"
  shows "\<exists>e. Extrinsic_objects_create row d = Inl e"
proof (cases "Extrinsic_objects_create row d")
  case (Inl e)
  then show ?thesis by simp
next
  case (Inr d')
  from Extrinsic_objects_create_Inr[OF Inr] assms show ?thesis by simp
qed

lemma extrinsic_kwargs_Inr:
  "extrinsic_kwargs v tag bi bn idx inst res evs = Inr row \<Longrightarrow>
     e_idx row = format_idx bn idx \<and> e_result row = res \<and> e_events row = evs
     \<and> e_call_index row = map_option c_call_index inst \<and> e_netuid row = tag
     \<and> e_block row = b_block_id bi"
  by (auto simp: extrinsic_kwargs_def and_then_eq_Inr)

lemma Call_objects_get_Inr:
  "Call_objects_get ci d = Inr inst \<Longrightarrow>
     c_call_index inst = char_field ci \<and> inst \<in> set (Call_objects d)"
proof -
  assume a: "Call_objects_get ci d = Inr inst"
  then have "filter (\<lambda>r. c_call_index r = char_field ci) (Call_objects d) = [inst]"
    by (auto simp: Call_objects_get_def split: list.splits)
  then have "inst \<in> set (filter (\<lambda>r. c_call_index r = char_field ci) (Call_objects d))" by simp
  then show ?thesis by simp
qed

lemma call_index_instance_of_effect:
  assumes "call_index_instance_of t d = (r, d1)"
  shows "Block_objects d1 = Block_objects d \<and> Extrinsic_objects d1 = Extrinsic_objects d
     \<and> (Call_objects d1 = Call_objects d
         \<or> (char_field (fst t) \<notin> set (map c_call_index (Call_objects d)) \<and>
            Call_objects d1 = Call_objects d @
              [\<lparr>c_call_index = char_field (fst t), c_call_function = char_field (fst (snd t)),
                c_call_module = char_field (snd (snd t))\<rparr>]))"
  using assms
  by (auto simp: call_index_instance_of_def Let_def Call_objects_create_def
        Call_objects_values_list_def split: if_splits sum.splits)

lemma call_index_instance_of_unique:
  assumes "call_index_instance_of t d = (r, d1)" "calls_unique d"
  shows "calls_unique d1"
  using call_index_instance_of_effect[OF assms(1)] assms(2)
  by (auto simp: calls_unique_def)

lemma call_index_instance_of_Inr:
  assumes "call_index_instance_of t d = (Inr inst, d1)"
  shows "if truthy (fst t)
         then (\<exists>row. inst = Some row \<and> c_call_index row = char_field (fst t)
                 \<and> row \<in> set (Call_objects d1))
         else inst = None \<and> d1 = d"
  using assms
  by (auto simp: call_index_instance_of_def Let_def split: if_splits sum.splits
        dest: Call_objects_get_Inr)

lemma process_extrinsic_skip:
  "\<not> truthy (getattr_value x) \<Longrightarrow> process_extrinsic events bi bn idx x d = (None, d)"
  by (simp add: process_extrinsic_def)

lemma process_extrinsic_None:
  assumes "process_extrinsic events bi bn idx x d = (None, d')" "truthy (getattr_value x)"
  obtains evs ok t tag inst d1 row where
    "extract_extrinsic_events events idx = Inr (evs, ok)"
    "extract_extrinsic_details (getattr_value x) = Inr (t, tag)"
    "call_index_instance_of t d = (Inr inst, d1)"
    "extrinsic_kwargs (getattr_value x) tag bi bn idx inst
       (if ok then ''success'' else ''failed'') evs = Inr row"
    "Extrinsic_objects_create row d1 = Inr d'"
  using assms
  by (auto simp: process_extrinsic_def Let_def split: sum.splits prod.splits if_splits)

lemma process_extrinsic_Some:
  assumes "process_extrinsic events bi bn idx x d = (Some e, d')"
  shows "Extrinsic_objects d' = Extrinsic_objects d \<and> Block_objects d' = Block_objects d
     \<and> (\<exists>t r. call_index_instance_of t d = (r, d') \<or> d' = d)"
  using assms
  by (auto simp: process_extrinsic_def Let_def split: sum.splits prod.splits if_splits
      dest: call_index_instance_of_effect)




lemma process_extrinsic_row:
  assumes "process_extrinsic events bi bn idx x d = (None, d')" "truthy (getattr_value x)"
  shows "\<exists>row ok. Extrinsic_objects d' = Extrinsic_objects d @ [row]
           \<and> e_idx row = format_idx bn idx
           \<and> extract_extrinsic_events events idx = Inr (e_events row, ok)
           \<and> e_result row = (if ok then ''success'' else ''failed'')"
proof -
  from assms obtain evs ok t tag inst d1 row where
    ev: "extract_extrinsic_events events idx = Inr (evs, ok)" and
    ci: "call_index_instance_of t d = (Inr inst, d1)" and
    kw: "extrinsic_kwargs (getattr_value x) tag bi bn idx inst
           (if ok then ''success'' else ''failed'') evs = Inr row" and
    cr: "Extrinsic_objects_create row d1 = Inr d'"
    by (rule process_extrinsic_None)
  from Extrinsic_objects_create_Inr[OF cr] obtain stored where
    st: "d' = d1\<lparr>Extrinsic_objects := Extrinsic_objects d1 @ [stored]\<rparr>"
      "e_idx stored = e_idx row" "e_events stored = e_events row"
      "e_result stored = e_result row"
    by blast
  from call_index_instance_of_effect[OF ci] st(1)
  have "Extrinsic_objects d' = Extrinsic_objects d @ [stored]" by simp
  with extrinsic_kwargs_Inr[OF kw] ev st(2,3,4) show ?thesis by auto
qed

lemma process_extrinsics_from_rows:
  "process_extrinsics_from idx xs events bi bn d = (r, d') \<Longrightarrow>
     \<exists>rows. Extrinsic_objects d' = Extrinsic_objects d @ rows \<and>
       (\<forall>row \<in> set rows. \<exists>i. idx \<le> i \<and> i < idx + length xs \<and> recorded events bn i row)"
proof (induction xs arbitrary: idx d)
  case Nil
  then show ?case by simp
next
  case (Cons x xs)
  obtain r1 d1 where step: "process_extrinsic events bi bn idx x d = (r1, d1)"
    by (cases "process_extrinsic events bi bn idx x d")
  show ?case
  proof (cases r1)
    case (Some e)
    with step Cons.prems have "d' = d1" by simp
    with process_extrinsic_Some[of events bi bn idx x d e d1] step Some show ?thesis by simp
  next
    case None
    with step Cons.prems have rest: "process_extrinsics_from (Suc idx) xs events bi bn d1 = (r, d')"
      by simp
    from Cons.IH[OF rest] obtain rows where
      rows: "Extrinsic_objects d' = Extrinsic_objects d1 @ rows"
        "\<forall>row \<in> set rows. \<exists>i. Suc idx \<le> i \<and> i < Suc idx + length xs \<and> recorded events bn i row"
      by blast
    have later: "\<forall>row \<in> set rows. \<exists>i. idx \<le> i \<and> i < idx + length (x # xs) \<and> recorded events bn i row"
    proof
      fix row assume "row \<in> set rows"
      with rows(2) obtain i where "Suc idx \<le> i" "i < Suc idx + length xs" "recorded events bn i row"
        by blast
      then show "\<exists>i. idx \<le> i \<and> i < idx + length (x # xs) \<and> recorded events bn i row"
        by (intro exI[of _ i]) simp
    qed
    show ?thesis
    proof (cases "truthy (getattr_value x)")
      case False
      with step None have "d1 = d" by (simp add: process_extrinsic_skip)
      with rows later show ?thesis by blast
    next
      case True
      from process_extrinsic_row[OF step[unfolded None] True] obtain row where
        row: "Extrinsic_objects d1 = Extrinsic_objects d @ [row]" "recorded events bn idx row"
        by (auto simp: recorded_def)
      have "Extrinsic_objects d' = Extrinsic_objects d @ (row # rows)"
        using rows(1) row(1) by simp
      moreover have "\<forall>r \<in> set (row # rows). \<exists>i. idx \<le> i \<and> i < idx + length (x # xs) \<and> recorded events bn i r"
        using later row(2) by auto
      ultimately show ?thesis by blast
    qed
  qed
qed


lemma sample_run:
  "process_extrinsics sample_extrinsics sample_events sample_block 3593992 sample_db
     = (None, sample_db_after)"
  by (simp add: sample_defs pipeline_defs numeral_2_eq_2)

text \<open>
  Claim C1. Every Extrinsic row that \<open>process_extrinsics\<close> persists belongs to a position
  \<open>i\<close> of the sequence: its events are the events of the block correlated to \<open>i\<close>, and its
  result is \<open>success\<close> if one of them has the identifier \<open>ExtrinsicSuccess\<close>, and
  \<open>failed\<close> otherwise.
\<close>

theorem result_success_iff_ExtrinsicSuccess_event:
  assumes run: "process_extrinsics xs events bi bn d = (r, d')"
    and row: "row \<in> set (drop (length (Extrinsic_objects d)) (Extrinsic_objects d'))"
  shows "\<exists>i < length xs. e_idx row = format_idx bn i \<and> e_events row = correlated events i \<and>
           e_result row =
             (if \<exists>ev \<in> set (e_events row). is_success_event ev then ''success'' else ''failed'')"
proof -
  from process_extrinsics_from_rows[OF run[unfolded process_extrinsics_def]] obtain rows where
    rows: "Extrinsic_objects d' = Extrinsic_objects d @ rows"
      "\<forall>row \<in> set rows. \<exists>i. 0 \<le> i \<and> i < 0 + length xs \<and> recorded events bn i row"
    by blast
  from rows(1) row have "row \<in> set rows" by simp
  with rows(2) obtain i where i: "i < length xs" "recorded events bn i row" by auto
  from i(2) obtain ok where ok: "e_idx row = format_idx bn i"
    "extract_extrinsic_events events i = Inr (e_events row, ok)"
    "e_result row = (if ok then ''success'' else ''failed'')"
    by (auto simp: recorded_def)
  from extract_extrinsic_events_Inr[OF ok(2)] ok(1,3) i(1) show ?thesis by auto
qed


theorem result_success_iff_ExtrinsicSuccess_event_witness:
  "process_extrinsics sample_extrinsics sample_events sample_block 3593992 sample_db
     = (None, sample_db_after) \<and>
   sample_row_2 \<in> set (drop (length (Extrinsic_objects sample_db))
                           (Extrinsic_objects sample_db_after)) \<and>
   (\<exists>i < length sample_extrinsics. e_idx sample_row_2 = format_idx 3593992 i \<and>
      e_events sample_row_2 = correlated sample_events i \<and>
      e_result sample_row_2 =
        (if \<exists>ev \<in> set (e_events sample_row_2). is_success_event ev
         then ''success'' else ''failed''))"
proof -
  have mem: "sample_row_2 \<in> set (drop (length (Extrinsic_objects sample_db))
                           (Extrinsic_objects sample_db_after))"
    by (simp add: sample_db_def sample_db_after_def)
  from result_success_iff_ExtrinsicSuccess_event[OF sample_run mem] sample_run mem
  show ?thesis by blast
qed

section \<open>Position identifiers of a block\<close>

lemma process_extrinsics_from_idx:
  "process_extrinsics_from idx xs events bi bn d = (None, d') \<Longrightarrow>
     \<exists>rows. Extrinsic_objects d' = Extrinsic_objects d @ rows \<and>
       map e_idx rows = map (\<lambda>p. format_idx bn (fst p))
          (filter (\<lambda>p. truthy (getattr_value (snd p))) (enumerate idx xs))"
proof (induction xs arbitrary: idx d)
  case Nil
  then show ?case by simp
next
  case (Cons x xs)
  obtain r1 d1 where step: "process_extrinsic events bi bn idx x d = (r1, d1)"
    by (cases "process_extrinsic events bi bn idx x d")
  with Cons.prems have r1: "r1 = None"
    and rest: "process_extrinsics_from (Suc idx) xs events bi bn d1 = (None, d')"
    by (auto split: option.splits)
  from Cons.IH[OF rest] obtain rows where
    rows: "Extrinsic_objects d' = Extrinsic_objects d1 @ rows"
      "map e_idx rows = map (\<lambda>p. format_idx bn (fst p))
          (filter (\<lambda>p. truthy (getattr_value (snd p))) (enumerate (Suc idx) xs))"
    by blast
  show ?case
  proof (cases "truthy (getattr_value x)")
    case False
    with step have "d1 = d" by (simp add: process_extrinsic_skip)
    with rows False show ?thesis by simp
  next
    case True
    from process_extrinsic_row[OF step[unfolded r1] True] obtain row where
      row: "Extrinsic_objects d1 = Extrinsic_objects d @ [row]" "e_idx row = format_idx bn idx"
      by auto
    have "Extrinsic_objects d' = Extrinsic_objects d @ (row # rows)"
      using rows(1) row(1) by simp
    moreover have "map e_idx (row # rows) = map (\<lambda>p. format_idx bn (fst p))
          (filter (\<lambda>p. truthy (getattr_value (snd p))) (enumerate idx (x # xs)))"
      using rows(2) row(2) True by simp
    ultimately show ?thesis by blast
  qed
qed

lemma distinct_positions:
  "distinct (map (\<lambda>p. format_idx bn (fst p)) (filter P (enumerate idx xs)))"
proof -
  have "distinct (map fst (filter P (enumerate idx xs)))"
    by (rule distinct_map_filter) simp
  moreover have "inj_on (format_idx bn) (set (map fst (filter P (enumerate idx xs))))"
    by (rule inj_onI) (rule format_idx_inj)
  ultimately have "distinct (map (format_idx bn) (map fst (filter P (enumerate idx xs))))"
    by (simp only: distinct_map simp_thms)
  then show ?thesis by (simp add: comp_def)
qed


text \<open>
  Claim C4, as amended. When \<open>process_extrinsics\<close> completes, the position identifiers of
  the rows it has persisted are, in order, \<open>{B}-{i:04}\<close> for exactly the positions \<open>i\<close>
  whose extrinsic has a non-empty value; they are pairwise distinct; and when every
  extrinsic of the block has a non-empty value they are \<open>{B}-0000\<close> up to \<open>{B}-{N-1}\<close>
  without a gap.
\<close>

theorem position_identifiers_of_nonempty_positions:
  assumes "process_extrinsics xs events bi bn d = (None, d')"
  shows "\<exists>rows. Extrinsic_objects d' = Extrinsic_objects d @ rows \<and>
           map e_idx rows = map (\<lambda>p. format_idx bn (fst p))
             (filter (\<lambda>p. truthy (getattr_value (snd p))) (enumerate 0 xs)) \<and>
           distinct (map e_idx rows) \<and>
           (list_all (\<lambda>x. truthy (getattr_value x)) xs \<longrightarrow>
              map e_idx rows = map (format_idx bn) [0..<length xs])"
proof -
  from process_extrinsics_from_idx[OF assms[unfolded process_extrinsics_def]] obtain rows where
    rows: "Extrinsic_objects d' = Extrinsic_objects d @ rows"
      "map e_idx rows = map (\<lambda>p. format_idx bn (fst p))
          (filter (\<lambda>p. truthy (getattr_value (snd p))) (enumerate 0 xs))"
    by blast
  have "distinct (map e_idx rows)"
    unfolding rows(2) by (rule distinct_positions)
  moreover have "map e_idx rows = map (format_idx bn) [0..<length xs]"
    if "list_all (\<lambda>x. truthy (getattr_value x)) xs"
  proof -
    from that have "filter (\<lambda>p. truthy (getattr_value (snd p))) (enumerate 0 xs) = enumerate 0 xs"
      by (auto simp: filter_id_conv list_all_iff in_set_enumerate_eq)
    moreover have "map (\<lambda>p. format_idx bn (fst p)) (enumerate 0 xs) = map (format_idx bn) [0..<length xs]"
      using map_map[of "format_idx bn" fst "enumerate 0 xs"] by (simp add: comp_def)
    ultimately show ?thesis using rows(2) by (simp only:)
  qed
  ultimately show ?thesis using rows by blast
qed


theorem position_identifiers_of_nonempty_positions_witness:
  "\<exists>d'. process_extrinsics [sample_timestamp_extrinsic, sample_stake_extrinsic] sample_events
           sample_block 3593992 sample_db = (None, d') \<and>
     list_all (\<lambda>x. truthy (getattr_value x)) [sample_timestamp_extrinsic, sample_stake_extrinsic] \<and>
     map e_idx (Extrinsic_objects d') = map (format_idx 3593992) [0..<2]"
proof -
  let ?xs = "[sample_timestamp_extrinsic, sample_stake_extrinsic]"
  obtain d' where run: "process_extrinsics ?xs sample_events sample_block 3593992 sample_db
      = (None, d')"
    by (simp add: sample_defs pipeline_defs)
  have nonempty: "list_all (\<lambda>x. truthy (getattr_value x)) ?xs"
    by (simp add: sample_defs getattr_value_def)
  from position_identifiers_of_nonempty_positions[OF run] nonempty obtain rows where
    "Extrinsic_objects d' = Extrinsic_objects sample_db @ rows"
    "map e_idx rows = map (format_idx 3593992) [0..<length ?xs]"
    by blast
  moreover have "length ?xs = 2" by simp
  ultimately have "map e_idx (Extrinsic_objects d') = map (format_idx 3593992) [0..<2]"
    by (simp only: sample_db_def db.simps append_Nil)
  with run nonempty show ?thesis by blast
qed

text \<open>The claim as stated fails: the sample block has three extrinsics, the second one
  without a value, and the identifier of position 1 is not among the persisted ones.\<close>

theorem position_identifiers_gap_counterexample:
  "process_extrinsics sample_extrinsics sample_events sample_block 3593992 sample_db
     = (None, sample_db_after) \<and>
   set (map e_idx (Extrinsic_objects sample_db_after))
     \<noteq> format_idx 3593992 ` {0..<length sample_extrinsics}"
proof -
  have "format_idx 3593992 1 \<in> format_idx 3593992 ` {0..<length sample_extrinsics}"
    by (simp add: sample_extrinsics_def)
  moreover have "format_idx 3593992 1 \<notin> set (map e_idx (Extrinsic_objects sample_db_after))"
    by (auto simp: sample_db_after_def sample_row_0_def sample_row_2_def dest: format_idx_inj)
  ultimately show ?thesis using sample_run by blast
qed

section \<open>Extrinsics without a value\<close>



section \<open>Extrinsics without a call identifier\<close>

lemma absent_identifier_never_persisted:
  assumes "truthy (getattr_value x)"
    and "extract_extrinsic_details (getattr_value x) = Inr ((ci, cf, cm), tag)"
    and "\<not> truthy ci"
  shows "\<exists>e. process_extrinsic events bi bn idx x d = (Some e, d)"
proof (cases "extract_extrinsic_events events idx")
  case (Inl e)
  with assms show ?thesis by (simp add: process_extrinsic_def)
next
  case (Inr p)
  obtain evs ok where p: "p = (evs, ok)" by (cases p)
  have ci: "call_index_instance_of (ci, cf, cm) d = (Inr None, d)"
    using assms(3) by (simp add: call_index_instance_of_def)
  show ?thesis
  proof (cases "extrinsic_kwargs (getattr_value x) tag bi bn idx None
                  (if ok then ''success'' else ''failed'') evs")
    case (Inl e)
    with assms Inr p ci show ?thesis by (simp add: process_extrinsic_def)
  next
    case (Inr row)
    from extrinsic_kwargs_Inr[OF Inr] have "e_call_index row = None" by simp
    from Extrinsic_objects_create_no_call[OF this, of d] obtain e where
      "Extrinsic_objects_create row d = Inl e" ..
    with assms \<open>extract_extrinsic_events events idx = Inr p\<close> p ci Inr show ?thesis
      by (simp add: process_extrinsic_def)
  qed
qed

text \<open>
  Claim C5. For an extrinsic whose call descriptor has no identifier the script creates no
  Call row and passes \<open>call_index=None\<close> to \<open>Extrinsic.objects.create\<close>. The foreign key
  \<open>Extrinsic.call_index\<close> is declared without \<open>null=True\<close>, so the insertion raises an
  integrity error: the row is not persisted and the rest of the block is not processed.
  The run below is the code at such an extrinsic.
\<close>

theorem missing_identifier_IntegrityError:
  "process_extrinsics [sample_no_identifier] sample_events sample_block 3593992 sample_db
     = (Some IntegrityError, sample_db)"
  by (simp add: sample_no_identifier_def sample_defs pipeline_defs)

section \<open>Ingesting a block twice\<close>

lemma process_extrinsic_blocks:
  "process_extrinsic events bi bn idx x d = (r, d') \<Longrightarrow> Block_objects d' = Block_objects d"
proof (cases r)
  case None
  assume a: "process_extrinsic events bi bn idx x d = (r, d')"
  show ?thesis
  proof (cases "truthy (getattr_value x)")
    case False
    with a show ?thesis by (simp add: process_extrinsic_skip)
  next
    case True
    from a None have "process_extrinsic events bi bn idx x d = (None, d')" by simp
    from this True show ?thesis
    proof (rule process_extrinsic_None)
      fix evs ok t tag inst d1 row
      assume "call_index_instance_of t d = (Inr inst, d1)" "Extrinsic_objects_create row d1 = Inr d'"
      with call_index_instance_of_effect[of t d "Inr inst" d1] Extrinsic_objects_create_Inr[of row d1 d']
      show ?thesis by fastforce
    qed
  qed
next
  case (Some e)
  assume "process_extrinsic events bi bn idx x d = (r, d')"
  with Some process_extrinsic_Some[of events bi bn idx x d e d'] show ?thesis by simp
qed

lemma process_extrinsics_from_blocks:
  "process_extrinsics_from idx xs events bi bn d = (r, d') \<Longrightarrow> Block_objects d' = Block_objects d"
proof (induction xs arbitrary: idx d)
  case Nil
  then show ?case by simp
next
  case (Cons x xs)
  obtain r1 d1 where step: "process_extrinsic events bi bn idx x d = (r1, d1)"
    by (cases "process_extrinsic events bi bn idx x d")
  from process_extrinsic_blocks[OF step] have b: "Block_objects d1 = Block_objects d" .
  show ?case
  proof (cases r1)
    case None
    with step Cons.prems have "process_extrinsics_from (Suc idx) xs events bi bn d1 = (r, d')"
      by simp
    from Cons.IH[OF this] b show ?thesis by simp
  next
    case (Some e)
    with step Cons.prems b show ?thesis by auto
  qed
qed

lemma sample_main_run:
  "main sample_block_data sample_events (PStr ''0xb1'') empty_db = (None, sample_db_after)"
proof -
  have "and_then (truediv_1000 (PInt 1700000000000)) fromtimestamp_utc
      = Inr (UTC_instant (of_int 1700000000000 / 1000))"
    by (rule fromtimestamp_ms) simp
  then have ts: "extract_block_timestamp sample_extrinsics = Inr (Some (UTC_instant 1700000000))"
    by (simp add: sample_defs getattr_value_def Let_def is_timestamp_set_def
          timestamp_of_call_def)
  have cb: "create_block_record 3593992 sample_block_data (PStr ''0xb1'')
              (Some (UTC_instant 1700000000)) empty_db = Inr (sample_block, sample_db)"
    by (simp add: create_block_record_def sample_block_data_def empty_db_def
          Block_objects_create_def sample_block_def sample_db_def int64_def)
  show ?thesis
    by (simp add: main_def main_from_def sample_block_data_def[THEN arg_cong, of extrinsics]
          ts cb sample_run)
qed

text \<open>
  Claim C9. When a run of the pipeline for block number \<open>bn\<close> has recorded the Block row
  of \<open>bn\<close>, a second run for the same block fails at \<open>Block.objects.create\<close> with an
  integrity error (the unique \<open>block_id\<close> is taken) and leaves every table as it was: no
  Block or Extrinsic row is added or changed.
\<close>

theorem reingest_fails_unchanged:
  assumes first: "main_from bn block events h d0 = (r, d1)"
    and fresh: "bn \<notin> set (map b_block_id (Block_objects d0))"
    and present: "bn \<in> set (map b_block_id (Block_objects d1))"
  shows "main_from bn block events h d1 = (Some IntegrityError, d1)"
proof -
  from fresh present have neq: "Block_objects d1 \<noteq> Block_objects d0" by auto
  obtain ts where ts: "extract_block_timestamp (extrinsics block) = Inr ts"
    using first neq by (cases "extract_block_timestamp (extrinsics block)") (auto simp: main_from_def)
  obtain bi d0' where cb: "create_block_record bn block h ts d0 = Inr (bi, d0')"
    using first neq ts
    by (cases "create_block_record bn block h ts d0") (auto simp: main_from_def)
  from cb obtain ph sr er where hd: "getitem (header block) ''parentHash'' = Inr ph"
    "getitem (header block) ''stateRoot'' = Inr sr" "getitem (header block) ''extrinsicsRoot'' = Inr er"
    and mk: "Block_objects_create \<lparr>b_block_id = bn, b_block_hash = h, b_parentHash = ph,
          b_stateRoot = sr, b_extrinsicsRoot = er, b_timestamp = ts\<rparr> d0 = Inr (bi, d0')"
    by (auto simp: create_block_record_def and_then_eq_Inr)
  from mk have nn: "int64 bn" "char_field h \<noteq> PNone" "char_field ph \<noteq> PNone"
    "char_field sr \<noteq> PNone" "char_field er \<noteq> PNone"
    by (auto simp: Block_objects_create_def Let_def split: if_splits)
  from nn present have "Block_objects_create \<lparr>b_block_id = bn, b_block_hash = h, b_parentHash = ph,
          b_stateRoot = sr, b_extrinsicsRoot = er, b_timestamp = ts\<rparr> d1 = Inl IntegrityError"
    by (simp add: Block_objects_create_def Let_def)
  with hd have "create_block_record bn block h ts d1 = Inl IntegrityError"
    by (simp add: create_block_record_def)
  with ts show ?thesis by (simp add: main_from_def)
qed

theorem reingest_fails_unchanged_witness:
  "main_from 3593992 sample_block_data sample_events (PStr ''0xb1'') empty_db
     = (None, sample_db_after) \<and>
   3593992 \<notin> set (map b_block_id (Block_objects empty_db)) \<and>
   3593992 \<in> set (map b_block_id (Block_objects sample_db_after)) \<and>
   main_from 3593992 sample_block_data sample_events (PStr ''0xb1'') sample_db_after
     = (Some IntegrityError, sample_db_after)"
proof -
  have run: "main_from 3593992 sample_block_data sample_events (PStr ''0xb1'') empty_db
     = (None, sample_db_after)"
    using sample_main_run by (simp add: main_def)
  have fresh: "3593992 \<notin> set (map b_block_id (Block_objects empty_db))"
    by (simp add: empty_db_def)
  have present: "3593992 \<in> set (map b_block_id (Block_objects sample_db_after))"
    by (simp add: sample_db_after_def sample_block_def)
  from reingest_fails_unchanged[OF run fresh present] run fresh present show ?thesis by blast
qed

section \<open>One Call row per identifier\<close>

lemma filter_unique_key:
  "distinct (map f xs) \<Longrightarrow> x \<in> set xs \<Longrightarrow> filter (\<lambda>r. f r = f x) xs = [x]"
proof (induction xs)
  case Nil
  then show ?case by simp
next
  case (Cons y ys)
  show ?case
  proof (cases "x = y")
    case True
    from Cons.prems(1) have "f y \<notin> f ` set ys" by simp
    then have "filter (\<lambda>r. f r = f y) ys = []"
      by (force simp: filter_empty_conv image_iff)
    with True show ?thesis by simp
  next
    case False
    with Cons.prems have "x \<in> set ys" "distinct (map f ys)" "f y \<noteq> f x" by auto
    with Cons.IH show ?thesis by simp
  qed
qed

lemma details_identifier_truthy:
  assumes "extract_extrinsic_details v = Inr ((PStr c, f, m), t)"
  shows "truthy v"
proof -
  from assms obtain call where call: "get_default v ''call'' (PDict []) = Inr call"
    and ci: "get call ''call_index'' = Inr (PStr c)"
    by (auto simp: extract_extrinsic_details_def and_then_eq_Inr)
  from call obtain kvs where v: "v = PDict kvs" by (cases v) simp_all
  show ?thesis
  proof (cases kvs)
    case Nil
    with v call ci show ?thesis by (auto simp: get_def)
  next
    case (Cons a list)
    with v show ?thesis by simp
  qed
qed

lemma process_extrinsic_identifier:
  assumes step: "process_extrinsic events bi bn idx x d = (None, d')"
    and det: "extract_extrinsic_details (getattr_value x) = Inr ((PStr c, f, m), t)"
    and ne: "c \<noteq> []"
    and uniq: "calls_unique d"
  shows "\<exists>call row. filter (\<lambda>r. c_call_index r = PStr c) (Call_objects d') = [call]
           \<and> c_call_index call = PStr c
           \<and> Extrinsic_objects d' = Extrinsic_objects d @ [row]
           \<and> e_call_index row = Some (PStr c)"
proof -
  from details_identifier_truthy[OF det] have tr: "truthy (getattr_value x)" .
  from step tr obtain evs t' tag inst d1 row res where
    det': "extract_extrinsic_details (getattr_value x) = Inr (t', tag)" and
    ci: "call_index_instance_of t' d = (Inr inst, d1)" and
    kw: "extrinsic_kwargs (getattr_value x) tag bi bn idx inst res evs = Inr row" and
    cr: "Extrinsic_objects_create row d1 = Inr d'"
    by (rule process_extrinsic_None)
  from det det' have t': "t' = (PStr c, f, m)" by simp
  from call_index_instance_of_Inr[OF ci] t' ne obtain call where
    call: "inst = Some call" "c_call_index call = PStr c" "call \<in> set (Call_objects d1)"
    by auto
  from call_index_instance_of_unique[OF ci uniq] have "distinct (map c_call_index (Call_objects d1))"
    by (simp add: calls_unique_def)
  from filter_unique_key[OF this call(3)] call(2)
  have one: "filter (\<lambda>r. c_call_index r = PStr c) (Call_objects d1) = [call]" by simp
  from Extrinsic_objects_create_Inr[OF cr] obtain stored where
    st: "d' = d1\<lparr>Extrinsic_objects := Extrinsic_objects d1 @ [stored]\<rparr>"
      "e_call_index stored = map_option char_field (e_call_index row)"
    by blast
  from extrinsic_kwargs_Inr[OF kw] call(1,2) st(2) have fk: "e_call_index stored = Some (PStr c)"
    by simp
  from call_index_instance_of_effect[OF ci] have "Extrinsic_objects d1 = Extrinsic_objects d" by simp
  with st(1) one call(2) fk show ?thesis by auto
qed

text \<open>
  Claim C3. Let two extrinsics whose call descriptors carry the same non-empty identifier
  \<open>c\<close> be ingested, in the same block or in different ones, the second in any later state
  of the tables that still holds the rows of the first. Then the Call table holds exactly
  one row with identifier \<open>c\<close>, and the Extrinsic rows of both extrinsics reference it.
  The uniqueness constraint of \<open>Call.call_index\<close> holds in the states the steps start from.
\<close>

theorem shared_identifier_one_Call_row:
  assumes step1: "process_extrinsic events1 bi1 bn1 idx1 x1 d0 = (None, d1)"
    and det1: "extract_extrinsic_details (getattr_value x1) = Inr ((PStr c, f1, m1), t1)"
    and uniq0: "calls_unique d0"
    and kept: "set (Extrinsic_objects d1) \<subseteq> set (Extrinsic_objects d1')"
    and uniq1: "calls_unique d1'"
    and step2: "process_extrinsic events2 bi2 bn2 idx2 x2 d1' = (None, d2)"
    and det2: "extract_extrinsic_details (getattr_value x2) = Inr ((PStr c, f2, m2), t2)"
    and ne: "c \<noteq> []"
  shows "\<exists>call row1 row2.
           filter (\<lambda>r. c_call_index r = PStr c) (Call_objects d2) = [call] \<and>
           Extrinsic_objects d1 = Extrinsic_objects d0 @ [row1] \<and>
           Extrinsic_objects d2 = Extrinsic_objects d1' @ [row2] \<and>
           row1 \<in> set (Extrinsic_objects d2) \<and>
           e_call_index row1 = Some (c_call_index call) \<and>
           e_call_index row2 = Some (c_call_index call)"
proof -
  from process_extrinsic_identifier[OF step1 det1 ne uniq0] obtain row1 where
    r1: "Extrinsic_objects d1 = Extrinsic_objects d0 @ [row1]" "e_call_index row1 = Some (PStr c)"
    by blast
  from process_extrinsic_identifier[OF step2 det2 ne uniq1] obtain call row2 where
    r2: "filter (\<lambda>r. c_call_index r = PStr c) (Call_objects d2) = [call]"
      "c_call_index call = PStr c"
      "Extrinsic_objects d2 = Extrinsic_objects d1' @ [row2]" "e_call_index row2 = Some (PStr c)"
    by blast
  from r1(1) kept r2(3) have "row1 \<in> set (Extrinsic_objects d2)" by auto
  with r1 r2 show ?thesis by auto
qed

theorem shared_identifier_one_Call_row_witness:
  "\<exists>d1 d2.
     process_extrinsic sample_events sample_block 3593992 2 sample_stake_extrinsic sample_db
       = (None, d1) \<and>
     extract_extrinsic_details (getattr_value sample_stake_extrinsic)
       = Inr ((PStr ''0x0700'', PStr ''add_stake'', PStr ''SubtensorModule''), PInt 12) \<and>
     calls_unique sample_db \<and>
     set (Extrinsic_objects d1) \<subseteq> set (Extrinsic_objects d1) \<and>
     calls_unique d1 \<and>
     process_extrinsic sample_events sample_block 3593992 3 sample_stake_again d1 = (None, d2) \<and>
     extract_extrinsic_details (getattr_value sample_stake_again)
       = Inr ((PStr ''0x0700'', PStr ''add_stake'', PStr ''SubtensorModule''), PNone) \<and>
     ''0x0700'' \<noteq> [] \<and>
     (\<exists>call row1 row2.
        filter (\<lambda>r. c_call_index r = PStr ''0x0700'') (Call_objects d2) = [call] \<and>
        Extrinsic_objects d1 = Extrinsic_objects sample_db @ [row1] \<and>
        Extrinsic_objects d2 = Extrinsic_objects d1 @ [row2] \<and>
        row1 \<in> set (Extrinsic_objects d2) \<and>
        e_call_index row1 = Some (c_call_index call) \<and>
        e_call_index row2 = Some (c_call_index call))"
proof -
  obtain d1 d2 where
    s1: "process_extrinsic sample_events sample_block 3593992 2 sample_stake_extrinsic sample_db
       = (None, d1)" and
    u1: "calls_unique d1" and
    s2: "process_extrinsic sample_events sample_block 3593992 3 sample_stake_again d1 = (None, d2)"
    by (auto simp: sample_stake_again_def sample_defs pipeline_defs calls_unique_def)
  have det1: "extract_extrinsic_details (getattr_value sample_stake_extrinsic)
       = Inr ((PStr ''0x0700'', PStr ''add_stake'', PStr ''SubtensorModule''), PInt 12)"
    by (simp add: sample_defs pipeline_defs)
  have det2: "extract_extrinsic_details (getattr_value sample_stake_again)
       = Inr ((PStr ''0x0700'', PStr ''add_stake'', PStr ''SubtensorModule''), PNone)"
    by (simp add: sample_stake_again_def pipeline_defs)
  have u0: "calls_unique sample_db" by (simp add: sample_db_def calls_unique_def)
  have kept: "set (Extrinsic_objects d1) \<subseteq> set (Extrinsic_objects d1)" by simp
  have ne: "''0x0700'' \<noteq> []" by simp
  from shared_identifier_one_Call_row[OF s1 det1 u0 kept u1 s2 det2 ne] s1 det1 u0 kept u1 s2 det2 ne
  show ?thesis by blast
qed

section \<open>Missing fields of a call\<close>















end
